theory Spec2Isabelle
  imports Main "HOL-Library.Sublist"
begin

section \<open>Python strings\<close>

text \<open>
  Python \<^verbatim>\<open>str\<close> values are modelled as \<^typ>\<open>string\<close>. The case conversions
  \<^verbatim>\<open>str.upper\<close> and \<^verbatim>\<open>str.lower\<close> act on the ASCII letters; every other
  character is left as it is.
\<close>

definition ascii_lowercase :: string where
  "ascii_lowercase = ''abcdefghijklmnopqrstuvwxyz''"

definition ascii_uppercase :: string where
  "ascii_uppercase = ''ABCDEFGHIJKLMNOPQRSTUVWXYZ''"

definition translate :: "string \<Rightarrow> string \<Rightarrow> char \<Rightarrow> char" where
  "translate src dst c = (case map_of (zip src dst) c of Some d \<Rightarrow> d | None \<Rightarrow> c)"

definition str_upper :: "string \<Rightarrow> string" where
  "str_upper s = map (translate ascii_lowercase ascii_uppercase) s"

definition str_lower :: "string \<Rightarrow> string" where
  "str_lower s = map (translate ascii_uppercase ascii_lowercase) s"

text \<open>\<^verbatim>\<open>sep.join(xs)\<close>\<close>

fun join :: "string \<Rightarrow> string list \<Rightarrow> string" where
  "join sep [] = []"
| "join sep [x] = x"
| "join sep (x # y # ys) = x @ sep @ join sep (y # ys)"

text \<open>\<^verbatim>\<open>str(n)\<close> for an integer: decimal digits, with a sign when negative.\<close>

fun str_nat :: "nat \<Rightarrow> string" where
  "str_nat n =
     (if n < 10 then [''0123456789'' ! n]
      else str_nat (n div 10) @ [''0123456789'' ! (n mod 10)])"

definition str_int :: "int \<Rightarrow> string" where
  "str_int i = (if i < 0 then ''-'' @ str_nat (nat (- i)) else str_nat (nat i))"

text \<open>\<^verbatim>\<open>s.count(c)\<close> for a one-character needle.\<close>

definition count_char :: "char \<Rightarrow> string \<Rightarrow> nat" where
  "count_char c s = length (filter (\<lambda>d. d = c) s)"

section \<open>The logical syntax tree\<close>

text \<open>
  The arguments of a predicate or of a function are variable names (Python strings) or
  nested function applications; the grammar of \<^verbatim>\<open>Parser.py\<close> builds nothing else
  (\<^verbatim>\<open>parameter : function | nonlogicals\<close>). Formulas are predicates, negations,
  n-ary conjunctions and disjunctions, and quantifiers over a list of names.
\<close>

datatype symbol =
    Var string
  | Function string "symbol list"

datatype logical =
    Predicate string "symbol list"
  | Negation logical
  | Conjunction "logical list"
  | Disjunction "logical list"
  | Universal "string list" logical
  | Existential "string list" logical

datatype error = IndexError | TypeError string | ValueError string | RecursionError

text \<open>
  \<^verbatim>\<open>Axiom.__init__\<close> stores the sentence and the id taken from the class counter
  \<^verbatim>\<open>Axiom.axiom_id\<close>; the other fields are caches that start as \<^verbatim>\<open>None\<close> and are
  never filled (the call of \<^verbatim>\<open>analyze_logical\<close> is commented out).
\<close>

record axiom =
  sentence :: logical
  ax_id :: int

text \<open>
  Modelled from the spec: \<^verbatim>\<open>Predicate.is_equality\<close> lives in \<^verbatim>\<open>logical/Symbol.py\<close>,
  which is not among the sources. The data model says: \<^verbatim>\<open>name == "="\<close> marks an equality
  predicate.
\<close>

definition is_equality :: "string \<Rightarrow> bool" where
  "is_equality name = (name = ''='')"

section \<open>Serializers\<close>

subsection \<open>\<^verbatim>\<open>Axiom.to_tptp\<close>\<close>

fun tptp_symbol :: "symbol \<Rightarrow> string" where
  "tptp_symbol (Var v) = str_upper v"
| "tptp_symbol (Function name variables) =
     str_lower name @ ''('' @ join '','' (map tptp_symbol variables) @ '')''"

text \<open>
  The quantifier prefix
  \<^verbatim>\<open>("! [{}] : " * len(logical.variables)).format(*[str.upper(var) for var in logical.variables])\<close>:
  the format string is repeated once per variable, so every variable gets a bracket of its
  own.
\<close>

definition tptp_prefix :: "string \<Rightarrow> string list \<Rightarrow> string" where
  "tptp_prefix q variables = concat (map (\<lambda>v. q @ '' ['' @ str_upper v @ ''] : '') variables)"

fun tptp_logical :: "logical \<Rightarrow> error + string"
  and tptp_logicals :: "logical list \<Rightarrow> error + string list" where
  "tptp_logical (Predicate name variables) =
     (if is_equality name then
        (case variables of
           a # b # _ \<Rightarrow> Inr (tptp_symbol a @ name @ tptp_symbol b)
         | _ \<Rightarrow> Inl IndexError)
      else Inr (str_lower name @ ''('' @ join '','' (map tptp_symbol variables) @ '')''))"
| "tptp_logical (Negation (Negation t)) = tptp_logical t"
| "tptp_logical (Negation (Predicate name variables)) =
     (case tptp_logical (Predicate name variables) of
        Inl e \<Rightarrow> Inl e
      | Inr s \<Rightarrow> Inr (''~('' @ s @ '')''))"
| "tptp_logical (Negation t) =
     (case tptp_logical t of Inl e \<Rightarrow> Inl e | Inr s \<Rightarrow> Inr (''~'' @ s))"
| "tptp_logical (Conjunction terms) =
     (case tptp_logicals terms of
        Inl e \<Rightarrow> Inl e
      | Inr ss \<Rightarrow> Inr (''('' @ join '' & '' ss @ '')''))"
| "tptp_logical (Disjunction terms) =
     (case tptp_logicals terms of
        Inl e \<Rightarrow> Inl e
      | Inr ss \<Rightarrow> Inr (''('' @ join '' | '' ss @ '')''))"
| "tptp_logical (Universal variables t) =
     (case tptp_logical t of
        Inl e \<Rightarrow> Inl e
      | Inr s \<Rightarrow> Inr (''('' @ tptp_prefix ''!'' variables @ '' ('' @ s @ ''))''))"
| "tptp_logical (Existential variables t) =
     (case tptp_logical t of
        Inl e \<Rightarrow> Inl e
      | Inr s \<Rightarrow> Inr (''('' @ tptp_prefix ''?'' variables @ '' ('' @ s @ ''))''))"
| "tptp_logicals [] = Inr []"
| "tptp_logicals (t # ts) =
     (case tptp_logical t of
        Inl e \<Rightarrow> Inl e
      | Inr s \<Rightarrow> (case tptp_logicals ts of Inl e \<Rightarrow> Inl e | Inr ss \<Rightarrow> Inr (s # ss)))"

definition to_tptp :: "axiom \<Rightarrow> error + string" where
  "to_tptp a =
     (case tptp_logical (sentence a) of
        Inl e \<Rightarrow> Inl e
      | Inr s \<Rightarrow> Inr (''fof(axiom'' @ str_int (ax_id a * 10) @ '', axiom, '' @ s @ '').''))"

subsection \<open>\<^verbatim>\<open>Axiom.to_ladr\<close>\<close>

text \<open>
  The \<^verbatim>\<open>Function\<close> branch joins \<^verbatim>\<open>logical.variables\<close> as they are, without the
  recursive call of the \<^verbatim>\<open>Predicate\<close> branch: \<^verbatim>\<open>",".join\<close> raises a
  \<^verbatim>\<open>TypeError\<close> on the first item that is not a string.
\<close>

fun str_items :: "symbol list \<Rightarrow> error + string list" where
  "str_items [] = Inr []"
| "str_items (Var v # xs) =
     (case str_items xs of Inl e \<Rightarrow> Inl e | Inr vs \<Rightarrow> Inr (v # vs))"
| "str_items (Function name variables # xs) =
     Inl (TypeError ''sequence item: expected str instance, Function found'')"

fun ladr_symbol :: "symbol \<Rightarrow> error + string" where
  "ladr_symbol (Var v) = Inr v"
| "ladr_symbol (Function name variables) =
     (case str_items variables of
        Inl e \<Rightarrow> Inl e
      | Inr vs \<Rightarrow> Inr (name @ ''('' @ join '','' vs @ '')''))"

fun ladr_symbols :: "symbol list \<Rightarrow> error + string list" where
  "ladr_symbols [] = Inr []"
| "ladr_symbols (x # xs) =
     (case ladr_symbol x of
        Inl e \<Rightarrow> Inl e
      | Inr s \<Rightarrow> (case ladr_symbols xs of Inl e \<Rightarrow> Inl e | Inr ss \<Rightarrow> Inr (s # ss)))"

definition ladr_prefix :: "string \<Rightarrow> string list \<Rightarrow> string" where
  "ladr_prefix q variables = concat (map (\<lambda>v. q @ '' '' @ v @ '' '') variables)"

fun ladr_logical :: "logical \<Rightarrow> error + string"
  and ladr_logicals :: "logical list \<Rightarrow> error + string list" where
  "ladr_logical (Predicate name variables) =
     (case ladr_symbols variables of
        Inl e \<Rightarrow> Inl e
      | Inr ss \<Rightarrow> Inr (name @ ''('' @ join '','' ss @ '')''))"
| "ladr_logical (Negation (Negation t)) = ladr_logical t"
| "ladr_logical (Negation (Predicate name variables)) =
     (case ladr_logical (Predicate name variables) of
        Inl e \<Rightarrow> Inl e
      | Inr s \<Rightarrow> Inr (''-('' @ s @ '')''))"
| "ladr_logical (Negation t) =
     (case ladr_logical t of Inl e \<Rightarrow> Inl e | Inr s \<Rightarrow> Inr (''-'' @ s))"
| "ladr_logical (Conjunction terms) =
     (case ladr_logicals terms of
        Inl e \<Rightarrow> Inl e
      | Inr ss \<Rightarrow> Inr (''('' @ join '' & '' ss @ '')''))"
| "ladr_logical (Disjunction terms) =
     (case ladr_logicals terms of
        Inl e \<Rightarrow> Inl e
      | Inr ss \<Rightarrow> Inr (''('' @ join '' | '' ss @ '')''))"
| "ladr_logical (Universal variables t) =
     (case ladr_logical t of
        Inl e \<Rightarrow> Inl e
      | Inr s \<Rightarrow> Inr (''('' @ ladr_prefix ''all'' variables @ '' '' @ s @ '')''))"
| "ladr_logical (Existential variables t) =
     (case ladr_logical t of
        Inl e \<Rightarrow> Inl e
      | Inr s \<Rightarrow> Inr (''('' @ ladr_prefix ''exists'' variables @ '' '' @ s @ '')''))"
| "ladr_logicals [] = Inr []"
| "ladr_logicals (t # ts) =
     (case ladr_logical t of
        Inl e \<Rightarrow> Inl e
      | Inr s \<Rightarrow> (case ladr_logicals ts of Inl e \<Rightarrow> Inl e | Inr ss \<Rightarrow> Inr (s # ss)))"

definition to_ladr :: "axiom \<Rightarrow> error + string" where
  "to_ladr a =
     (case ladr_logical (sentence a) of Inl e \<Rightarrow> Inl e | Inr s \<Rightarrow> Inr (s @ ''.''))"

text \<open>
  The output format as the serializer's description gives it, written directly on the
  tree: names in upper case for variables and lower case for predicates and functions,
  the equality sign between the arguments of an equality predicate, \<^verbatim>\<open>~(...)\<close> around
  a negated predicate, a doubly negated term as the term itself, parenthesized infix lists
  for conjunction and disjunction, and for a quantifier one \<^verbatim>\<open>! [V] : \<close> (or
  \<^verbatim>\<open>? [V] : \<close>) per bound variable before the parenthesized body.
\<close>

fun fof_body :: "logical \<Rightarrow> string" where
  "fof_body (Predicate name variables) =
     (if name = ''='' then join ''='' (map tptp_symbol variables)
      else str_lower name @ ''('' @ join '','' (map tptp_symbol variables) @ '')'')"
| "fof_body (Negation (Negation t)) = fof_body t"
| "fof_body (Negation (Predicate name variables)) =
     ''~('' @ fof_body (Predicate name variables) @ '')''"
| "fof_body (Negation t) = ''~'' @ fof_body t"
| "fof_body (Conjunction terms) = ''('' @ join '' & '' (map fof_body terms) @ '')''"
| "fof_body (Disjunction terms) = ''('' @ join '' | '' (map fof_body terms) @ '')''"
| "fof_body (Universal variables t) =
     ''('' @ concat (map (\<lambda>v. ''! ['' @ str_upper v @ ''] : '') variables)
       @ '' ('' @ fof_body t @ ''))''"
| "fof_body (Existential variables t) =
     ''('' @ concat (map (\<lambda>v. ''? ['' @ str_upper v @ ''] : '') variables)
       @ '' ('' @ fof_body t @ ''))''"

text \<open>Every equality predicate of the sentence has exactly two arguments.\<close>

fun binary_equalities :: "logical \<Rightarrow> bool" where
  "binary_equalities (Predicate name variables) =
     (\<not> is_equality name \<or> length variables = 2)"
| "binary_equalities (Negation t) = binary_equalities t"
| "binary_equalities (Conjunction terms) = list_all binary_equalities terms"
| "binary_equalities (Disjunction terms) = list_all binary_equalities terms"
| "binary_equalities (Universal variables t) = binary_equalities t"
| "binary_equalities (Existential variables t) = binary_equalities t"

section \<open>Classifying the output of Vampire (\<^verbatim>\<open>Reasoner.py\<close>)\<close>

text \<open>
  Modelled from the spec: the status constants of \<^verbatim>\<open>Ontology.py\<close>, which is not among
  the sources; the spec names the closed status set PROOF, INCONSISTENT, COUNTEREXAMPLE,
  CONSISTENT, UNKNOWN, ERROR.
\<close>

datatype status = PROOF | COUNTEREXAMPLE | CONSISTENT | INCONSISTENT | ERROR | UNKNOWN

text \<open>The dictionary \<^verbatim>\<open>mapping\<close>; the key \<^verbatim>\<open>None\<close> is an output never set.\<close>

fun mapping :: "status option \<Rightarrow> bool" where
  "mapping (Some PROOF) = True"
| "mapping (Some COUNTEREXAMPLE) = True"
| "mapping (Some CONSISTENT) = True"
| "mapping (Some INCONSISTENT) = True"
| "mapping (Some ERROR) = False"
| "mapping (Some UNKNOWN) = False"
| "mapping None = False"

text \<open>\<^verbatim>\<open>needle in line\<close> is \<^term>\<open>sublist needle line\<close>; \<^verbatim>\<open>x.startswith(p)\<close> is
  \<^term>\<open>prefix p x\<close>.\<close>

definition vampire_status :: "string \<Rightarrow> status" where
  "vampire_status line =
     (if sublist ''Refutation not found'' line then UNKNOWN
      else if sublist ''Refutation'' line then PROOF
      else if sublist ''Unsatisfiable'' line then INCONSISTENT
      else if sublist ''CounterSatisfiable'' line then COUNTEREXAMPLE
      else if sublist ''Satisfiable'' line then CONSISTENT
      else UNKNOWN)"

text \<open>
  \<^verbatim>\<open>success_vampire\<close> on the lines that \<^verbatim>\<open>readlines\<close> returned: the new value of
  \<^verbatim>\<open>self.output\<close>, and the value returned.
\<close>

definition vampire_output :: "string list \<Rightarrow> status" where
  "vampire_output lines =
     (let output_lines = filter (prefix ''Termination reason:'') lines;
          l = length output_lines
      in if l = 0 then UNKNOWN
         else
           (let output = vampire_status (output_lines ! (l - 1))
            in if output = UNKNOWN then
                 (let output_lines = filter (prefix ''Parser exception:'') lines
                  in if length output_lines > 0 then ERROR else output)
               else output))"

definition success_vampire :: "string list \<Rightarrow> status \<times> bool" where
  "success_vampire lines = (vampire_output lines, mapping (Some (vampire_output lines)))"

text \<open>
  The classification as a keyword table read in order, the first keyword found in the
  line deciding.
\<close>

definition vampire_keywords :: "(string \<times> status) list" where
  "vampire_keywords =
     [(''Refutation not found'', UNKNOWN), (''Refutation'', PROOF),
      (''Unsatisfiable'', INCONSISTENT), (''CounterSatisfiable'', COUNTEREXAMPLE),
      (''Satisfiable'', CONSISTENT)]"

definition first_keyword :: "string \<Rightarrow> status" where
  "first_keyword line =
     (case find (\<lambda>(k, s). sublist k line) vampire_keywords of
        Some (k, s) \<Rightarrow> s
      | None \<Rightarrow> UNKNOWN)"

section \<open>Parsing a file (\<^verbatim>\<open>Parser.py\<close>)\<close>

subsection \<open>\<^verbatim>\<open>parse_file\<close>\<close>

text \<open>
  What \<^verbatim>\<open>yacc.parse\<close> returns for a statement list: logical sentences, import URIs
  (strings) and \<^verbatim>\<open>None\<close> for each comment.
\<close>

datatype parsed = Sentence logical | Uri string | NoneObj

text \<open>
  Modelled from the spec: the class \<^verbatim>\<open>Ontology\<close> of \<^verbatim>\<open>Ontology.py\<close>, which is not
  among the sources: an ordered sequence of parsed axioms plus an ordered sequence of
  import URIs, with the path it was built from, the name and the base path that
  \<^verbatim>\<open>parse_file\<close> assigns.
\<close>

record ontology =
  onto_path :: string
  onto_name :: "string option"
  basepath :: "(string \<times> string) option"
  axioms :: "logical list"
  imports_of :: "string list"

definition Ontology :: "string \<Rightarrow> ontology" where
  "Ontology path =
     \<lparr>onto_path = path, onto_name = None, basepath = None, axioms = [], imports_of = []\<rparr>"

text \<open>
  The surroundings of \<^verbatim>\<open>parse_file\<close>: the file system (\<^verbatim>\<open>os.path\<close> and reading a
  file: \<^term>\<open>None\<close> where the path is not a regular file), the parser that PLY generates
  from the grammar (it raises, returns \<^verbatim>\<open>None\<close> or returns the statement list), and
  \<^verbatim>\<open>Ontology.resolve_imports\<close>.
\<close>

record env =
  normpath_join :: "string \<Rightarrow> string \<Rightarrow> string"
  read_file :: "string \<Rightarrow> string option"
  yacc_parse :: "string \<Rightarrow> error + parsed list option"
  resolve_imports :: "ontology \<Rightarrow> error + ontology"

fun add_parsed :: "ontology \<Rightarrow> parsed list \<Rightarrow> ontology" where
  "add_parsed onto [] = onto"
| "add_parsed onto (Sentence t # xs) = add_parsed (onto\<lparr>axioms := axioms onto @ [t]\<rparr>) xs"
| "add_parsed onto (Uri u # xs) = add_parsed (onto\<lparr>imports_of := imports_of onto @ [u]\<rparr>) xs"
| "add_parsed onto (NoneObj # xs) = add_parsed onto xs"

definition parse_file ::
  "env \<Rightarrow> string \<Rightarrow> string \<Rightarrow> string \<Rightarrow> bool \<Rightarrow> string option \<Rightarrow> error + ontology option" where
  "parse_file e path sub base resolve name =
     (let path = normpath_join e base path
      in case read_file e path of
           None \<Rightarrow> Inr None
         | Some buff \<Rightarrow>
             (let ontology = Ontology path;
                  ontology = (case name of None \<Rightarrow> ontology
                              | Some n \<Rightarrow> ontology\<lparr>onto_name := Some n\<rparr>)
              in if buff = [] then Inr None
                 else
                   (case yacc_parse e buff of
                      Inl err \<Rightarrow> Inl err
                    | Inr None \<Rightarrow> Inl (TypeError ''NoneType object is not iterable'')
                    | Inr (Some parsed_objects) \<Rightarrow>
                        (let ontology = ontology\<lparr>basepath := Some (sub, base)\<rparr>;
                             ontology = add_parsed ontology parsed_objects
                         in if resolve then
                              (case resolve_imports e ontology of
                                 Inl err \<Rightarrow> Inl err
                               | Inr ontology \<Rightarrow> Inr (Some ontology))
                            else Inr (Some ontology)))))"

subsection \<open>\<^verbatim>\<open>p_error\<close> and \<^verbatim>\<open>get_line_number\<close>\<close>

text \<open>
  A value on the parse stack is a string (a token's text, an import's URI), a list (of
  strings or of other objects), or another object (a logical node, \<^verbatim>\<open>None\<close>).
\<close>

datatype item = IStr string | IObj

datatype pyval = VStr string | VList "item list" | VObj

record token =
  tok_type :: string
  tok_value :: pyval
  lexpos :: nat

definition get_line_number :: "string \<Rightarrow> nat \<Rightarrow> nat" where
  "get_line_number string pos = count_char CHR 0x0A (take pos string) + 1"

text \<open>
  The index of the nearest \<^verbatim>\<open>axiom\<close> symbol on the stack, or the length of the stack
  when there is none. The stack symbols are distinct objects compared by identity, so
  \<^verbatim>\<open>stack.index(x)\<close> is the position of \<^verbatim>\<open>x\<close> itself: the last position holding an
  \<^verbatim>\<open>axiom\<close>.
\<close>

fun index_current_axiom :: "token list \<Rightarrow> nat" where
  "index_current_axiom [] = 0"
| "index_current_axiom (x # xs) =
     (if list_ex (\<lambda>y. tok_type y = ''axiom'') xs then Suc (index_current_axiom xs)
      else if tok_type x = ''axiom'' then 0
      else Suc (length xs))"

text \<open>The loop that reads tokens from the lexer until the parentheses balance.\<close>

fun lookahead :: "nat \<Rightarrow> token list \<Rightarrow> token list \<times> token list" where
  "lookahead 0 toks = ([], toks)"
| "lookahead (Suc n) [] = ([], [])"
| "lookahead (Suc n) (t # toks) =
     (let lparens = (if tok_type t = ''RPAREN'' then n
                     else if tok_type t = ''LPAREN'' then Suc (Suc n)
                     else Suc n);
          (found, rest) = lookahead lparens toks
      in (t # found, rest))"

text \<open>Each character followed by the combining low line U+0332, here as its two UTF-8 bytes.\<close>

definition underbar :: "string \<Rightarrow> string" where
  "underbar s = concat (map (\<lambda>x. [x, CHR 0xCC, CHR 0xB2]) s)"

fun item_strings :: "item list \<Rightarrow> error + string" where
  "item_strings [] = Inr []"
| "item_strings (IStr s # xs) =
     (case item_strings xs of Inl e \<Rightarrow> Inl e | Inr r \<Rightarrow> Inr (s @ '' '' @ r))"
| "item_strings (IObj # xs) = Inl (TypeError ''unsupported operand type(s) for +'')"

fun axiom_string :: "token list \<Rightarrow> error + string" where
  "axiom_string [] = Inr []"
| "axiom_string (t # ts) =
     (case (case tok_value t of
              VStr s \<Rightarrow> Inr (s @ '' '')
            | VList xs \<Rightarrow> item_strings xs
            | VObj \<Rightarrow> Inr []) of
        Inl e \<Rightarrow> Inl e
      | Inr s \<Rightarrow> (case axiom_string ts of Inl e \<Rightarrow> Inl e | Inr r \<Rightarrow> Inr (s @ r)))"

text \<open>
  \<^verbatim>\<open>p_error\<close> for the token \<^verbatim>\<open>p\<close> (\<^verbatim>\<open>None\<close> at the end of the input), the parser's
  symbol stack, the text being lexed and the tokens the lexer has still to deliver. It
  returns the line printed, the token with its underbarred text and the tokens left.
\<close>

definition error_line :: "string \<Rightarrow> nat \<Rightarrow> nat" where
  "error_line lexdata error_pos = count_char CHR 0x0A (take error_pos lexdata)"

definition p_error ::
  "token option \<Rightarrow> token list \<Rightarrow> string \<Rightarrow> token list
     \<Rightarrow> error + (string \<times> token \<times> token list)" where
  "p_error p symstack lexdata pending =
     (case p of
        None \<Rightarrow> Inl (TypeError ''Unexpectedly reached EOF'')
      | Some p \<Rightarrow>
          (case tok_value p of
             VStr text \<Rightarrow>
               (let error_pos = lexpos p;
                    stack = tl symstack;
                    current_axiom = drop (index_current_axiom stack) stack @ [p];
                    lparens = length (filter (\<lambda>x. tok_type x = ''LPAREN'') current_axiom);
                    (lookahead_tokens, rest) = lookahead lparens pending;
                    p = p\<lparr>tok_value := VStr (underbar text)\<rparr>;
                    current_axiom = butlast current_axiom @ [p] @ lookahead_tokens
                in case axiom_string current_axiom of
                     Inl e \<Rightarrow> Inl e
                   | Inr s \<Rightarrow>
                       Inr (''Error at line '' @ str_nat (error_line lexdata error_pos)
                            @ ''! Unexpected Token: '' @ [CHR 0x27] @ underbar text @ [CHR 0x27]
                            @ '' :: '' @ [CHR 0x22] @ s @ [CHR 0x22] @ [CHR 0x0A, CHR 0x0A]
                            @ join '' '' (map tok_type stack),
                            p, rest))
           | _ \<Rightarrow> Inl (TypeError ''can only join an iterable of characters'')))"

section \<open>The normalization pipeline (\<^verbatim>\<open>Axiom.py\<close>)\<close>

text \<open>
  The process-wide counters: the class attribute \<^verbatim>\<open>Axiom.axiom_id\<close>, and the counter
  of the names that function substitution invents.
\<close>

record pstate =
  axiom_id :: int
  function_counter :: nat

text \<open>\<^verbatim>\<open>Axiom.__init__\<close>: the new axiom takes the counter's value, and the counter moves on.\<close>

definition Axiom :: "logical \<Rightarrow> pstate \<Rightarrow> axiom \<times> pstate" where
  "Axiom s st = (\<lparr>sentence = s, ax_id = axiom_id st\<rparr>, st\<lparr>axiom_id := axiom_id st + 1\<rparr>)"

subsection \<open>Function substitution\<close>

text \<open>
  Modelled from the spec: \<^verbatim>\<open>Util.dfs_functions\<close> of \<^verbatim>\<open>logical/Utils.py\<close>, which is
  not among the sources. Every function application that occurs as an argument is replaced
  by a fresh variable, innermost applications first; the fresh name is the function's name
  followed by the value of the process-wide counter; the predicate with its new arguments is
  wrapped as \<open>\<exists>fresh. (\<not>P(...) \<or> relations)\<close>, where the relations conjoin one
  predicate \<open>f(args, v)\<close> per replaced application \<open>f(args)\<close>.
\<close>

fun is_function :: "symbol \<Rightarrow> bool" where
  "is_function (Var v) = False"
| "is_function (Function name variables) = True"

fun all_of :: "logical list \<Rightarrow> logical" where
  "all_of [t] = t"
| "all_of ts = Conjunction ts"

fun any_of :: "logical list \<Rightarrow> logical" where
  "any_of [t] = t"
| "any_of ts = Disjunction ts"

fun flatten_symbol :: "symbol \<Rightarrow> nat \<Rightarrow> string \<times> string list \<times> logical list \<times> nat"
  and flatten_symbols :: "symbol list \<Rightarrow> nat \<Rightarrow> string list \<times> string list \<times> logical list \<times> nat" where
  "flatten_symbol (Var v) c = (v, [], [], c)"
| "flatten_symbol (Function name variables) c =
     (case flatten_symbols variables c of
        (names, fresh, relations, c') \<Rightarrow>
          (let v = name @ str_nat c'
           in (v, fresh @ [v], relations @ [Predicate name (map Var (names @ [v]))], Suc c')))"
| "flatten_symbols [] c = ([], [], [], c)"
| "flatten_symbols (x # xs) c =
     (case flatten_symbol x c of
        (v, fresh, relations, c') \<Rightarrow>
          (case flatten_symbols xs c' of
             (vs, fresh', relations', c'') \<Rightarrow> (v # vs, fresh @ fresh', relations @ relations', c'')))"

fun dfs_functions :: "logical \<Rightarrow> nat \<Rightarrow> logical \<times> nat"
  and dfs_functions_list :: "logical list \<Rightarrow> nat \<Rightarrow> logical list \<times> nat" where
  "dfs_functions (Predicate name variables) c =
     (if list_ex is_function variables then
        (case flatten_symbols variables c of
           (names, fresh, relations, c') \<Rightarrow>
             (Existential fresh
                (Disjunction [Negation (Predicate name (map Var names)), all_of relations]), c'))
      else (Predicate name variables, c))"
| "dfs_functions (Negation t) c = (case dfs_functions t c of (t', c') \<Rightarrow> (Negation t', c'))"
| "dfs_functions (Conjunction terms) c =
     (case dfs_functions_list terms c of (ts, c') \<Rightarrow> (Conjunction ts, c'))"
| "dfs_functions (Disjunction terms) c =
     (case dfs_functions_list terms c of (ts, c') \<Rightarrow> (Disjunction ts, c'))"
| "dfs_functions (Universal variables t) c =
     (case dfs_functions t c of (t', c') \<Rightarrow> (Universal variables t', c'))"
| "dfs_functions (Existential variables t) c =
     (case dfs_functions t c of (t', c') \<Rightarrow> (Existential variables t', c'))"
| "dfs_functions_list [] c = ([], c)"
| "dfs_functions_list (t # ts) c =
     (case dfs_functions t c of
        (t', c') \<Rightarrow> (case dfs_functions_list ts c' of (ts', c'') \<Rightarrow> (t' # ts', c'')))"

subsection \<open>Standardizing variables\<close>

text \<open>
  Modelled from the spec: \<^verbatim>\<open>Util.dfs_standardize\<close> and \<^verbatim>\<open>Util.generator\<close> of
  \<^verbatim>\<open>logical/Utils.py\<close>, which is not among the sources. The tree is walked depth first;
  each quantifier draws one name per bound variable from the generator, in the order of its
  list, and the occurrences it binds are renamed. The generator of a call is the sequence
  \<open>gen 0, gen 1, ...\<close>; \<^verbatim>\<open>standardize_variables\<close> makes a new generator for every call,
  so the count starts at 0.
\<close>

fun rename :: "(string \<times> string) list \<Rightarrow> symbol \<Rightarrow> symbol" where
  "rename env (Var v) = Var (case map_of env v of Some w \<Rightarrow> w | None \<Rightarrow> v)"
| "rename env (Function name variables) = Function name (map (rename env) variables)"

fun dfs_standardize ::
  "(nat \<Rightarrow> string) \<Rightarrow> (string \<times> string) list \<Rightarrow> logical \<Rightarrow> nat \<Rightarrow> logical \<times> nat"
  and dfs_standardize_list ::
  "(nat \<Rightarrow> string) \<Rightarrow> (string \<times> string) list \<Rightarrow> logical list \<Rightarrow> nat \<Rightarrow> logical list \<times> nat" where
  "dfs_standardize gen env (Predicate name variables) k =
     (Predicate name (map (rename env) variables), k)"
| "dfs_standardize gen env (Negation t) k =
     (case dfs_standardize gen env t k of (t', k') \<Rightarrow> (Negation t', k'))"
| "dfs_standardize gen env (Conjunction terms) k =
     (case dfs_standardize_list gen env terms k of (ts, k') \<Rightarrow> (Conjunction ts, k'))"
| "dfs_standardize gen env (Disjunction terms) k =
     (case dfs_standardize_list gen env terms k of (ts, k') \<Rightarrow> (Disjunction ts, k'))"
| "dfs_standardize gen env (Universal variables t) k =
     (let fresh = map gen [k ..< k + length variables]
      in case dfs_standardize gen (zip variables fresh @ env) t (k + length variables) of
           (t', k') \<Rightarrow> (Universal fresh t', k'))"
| "dfs_standardize gen env (Existential variables t) k =
     (let fresh = map gen [k ..< k + length variables]
      in case dfs_standardize gen (zip variables fresh @ env) t (k + length variables) of
           (t', k') \<Rightarrow> (Existential fresh t', k'))"
| "dfs_standardize_list gen env [] k = ([], k)"
| "dfs_standardize_list gen env (t # ts) k =
     (case dfs_standardize gen env t k of
        (t', k') \<Rightarrow>
          (case dfs_standardize_list gen env ts k' of (ts', k'') \<Rightarrow> (t' # ts', k'')))"

text \<open>
  The reverse-alphabetic sequence \<open>z, y, x, ...\<close> of the spec; after \<open>a\<close> it goes on with
  doubled letters, then tripled ones, which keeps the names distinct.
\<close>

definition generator :: "nat \<Rightarrow> string" where
  "generator k = replicate (Suc (k div 26)) (rev ascii_lowercase ! (k mod 26))"

subsection \<open>Pushing negation\<close>

text \<open>
  Modelled from the spec: \<^verbatim>\<open>Util.dfs_negate\<close> of \<^verbatim>\<open>logical/Utils.py\<close>, which is not
  among the sources: De Morgan's laws, the duality of the quantifiers and the removal of a
  double negation. \<^term>\<open>negated t\<close> is the normal form of the negation of \<open>t\<close>.
\<close>

fun dfs_negate :: "logical \<Rightarrow> logical" and negated :: "logical \<Rightarrow> logical" where
  "dfs_negate (Predicate name variables) = Predicate name variables"
| "dfs_negate (Negation t) = negated t"
| "dfs_negate (Conjunction terms) = Conjunction (map dfs_negate terms)"
| "dfs_negate (Disjunction terms) = Disjunction (map dfs_negate terms)"
| "dfs_negate (Universal variables t) = Universal variables (dfs_negate t)"
| "dfs_negate (Existential variables t) = Existential variables (dfs_negate t)"
| "negated (Predicate name variables) = Negation (Predicate name variables)"
| "negated (Negation t) = dfs_negate t"
| "negated (Conjunction terms) = Disjunction (map negated terms)"
| "negated (Disjunction terms) = Conjunction (map negated terms)"
| "negated (Universal variables t) = Existential variables (negated t)"
| "negated (Existential variables t) = Universal variables (negated t)"

subsection \<open>Prenex form\<close>

text \<open>
  \<^verbatim>\<open>create_prenex\<close> walks the queue of \<^verbatim>\<open>Util.reverse_bfs\<close>, so children are done
  before their parents, and replaces every connective by its coalesced and rescoped form
  through \<^verbatim>\<open>parent.remove_term(term); parent.set_term(scoped_term)\<close>; a quantifier at the
  root is simplified at the end.

  Modelled from the spec: \<^verbatim>\<open>Util.reverse_bfs\<close>, \<^verbatim>\<open>coalesce\<close>, \<^verbatim>\<open>rescope\<close>,
  \<^verbatim>\<open>remove_term\<close>, \<^verbatim>\<open>set_term\<close> and \<^verbatim>\<open>simplify\<close> of \<^verbatim>\<open>logical/Utils.py\<close>,
  \<^verbatim>\<open>Connective.py\<close> and \<^verbatim>\<open>Quantifier.py\<close>, which are not among the sources.
  Rescoping a connective moves the quantifiers of its children in front of it, left to
  right, the connective staying over their bodies; coalescing merges neighbouring
  quantifiers of the same kind into one with the variable lists concatenated; a child that
  is a connective is removed and set again, which puts it behind its siblings (the last
  one of the queue first).
\<close>

datatype block = Forall "string list" | Exists "string list"

fun quantifiers :: "logical \<Rightarrow> block list" where
  "quantifiers (Universal variables t) = Forall variables # quantifiers t"
| "quantifiers (Existential variables t) = Exists variables # quantifiers t"
| "quantifiers t = []"

fun matrix :: "logical \<Rightarrow> logical" where
  "matrix (Universal variables t) = matrix t"
| "matrix (Existential variables t) = matrix t"
| "matrix t = t"

fun quantify :: "block list \<Rightarrow> logical \<Rightarrow> logical" where
  "quantify [] t = t"
| "quantify (Forall variables # bs) t = Universal variables (quantify bs t)"
| "quantify (Exists variables # bs) t = Existential variables (quantify bs t)"

fun coalesce :: "block list \<Rightarrow> block list" where
  "coalesce (Forall vs # Forall ws # bs) = coalesce (Forall (vs @ ws) # bs)"
| "coalesce (Exists vs # Exists ws # bs) = coalesce (Exists (vs @ ws) # bs)"
| "coalesce (b # bs) = b # coalesce bs"
| "coalesce [] = []"

fun is_connective :: "logical \<Rightarrow> bool" where
  "is_connective (Conjunction terms) = True"
| "is_connective (Disjunction terms) = True"
| "is_connective t = False"

fun is_quantifier :: "logical \<Rightarrow> bool" where
  "is_quantifier (Universal variables t) = True"
| "is_quantifier (Existential variables t) = True"
| "is_quantifier t = False"

definition rescope :: "(logical list \<Rightarrow> logical) \<Rightarrow> logical list \<Rightarrow> logical" where
  "rescope connective terms =
     quantify (coalesce (concat (map quantifiers terms))) (connective (map matrix terms))"

fun prenex :: "logical \<Rightarrow> logical" where
  "prenex (Predicate name variables) = Predicate name variables"
| "prenex (Negation t) = Negation (prenex t)"
| "prenex (Conjunction terms) =
     rescope Conjunction
       (map prenex (filter (\<lambda>t. \<not> is_connective t) terms)
        @ rev (map prenex (filter is_connective terms)))"
| "prenex (Disjunction terms) =
     rescope Disjunction
       (map prenex (filter (\<lambda>t. \<not> is_connective t) terms)
        @ rev (map prenex (filter is_connective terms)))"
| "prenex (Universal variables t) = Universal variables (prenex t)"
| "prenex (Existential variables t) = Existential variables (prenex t)"

definition simplify :: "logical \<Rightarrow> logical" where
  "simplify t = quantify (coalesce (quantifiers t)) (matrix t)"

definition prenex_tree :: "logical \<Rightarrow> logical" where
  "prenex_tree t = (if is_quantifier (prenex t) then simplify (prenex t) else prenex t)"

subsection \<open>Distributing disjunctions\<close>

text \<open>
  Modelled from the spec: \<^verbatim>\<open>to_onf\<close> of \<^verbatim>\<open>Connective.py\<close> and \<^verbatim>\<open>Quantifier.py\<close>,
  which are not among the sources: below the quantifiers, \<open>A \<or> (B \<and> C)\<close> becomes
  \<open>(A \<or> B) \<and> (A \<or> C)\<close> until no disjunction has a conjunction as an argument. The
  matrix is read as its list of clauses; a clause of one literal is the literal, and a
  matrix of one clause is the clause.
\<close>

fun distribute :: "logical list list list \<Rightarrow> logical list list" where
  "distribute [] = [[]]"
| "distribute (cs # rest) = concat (map (\<lambda>c. map (\<lambda>d. c @ d) (distribute rest)) cs)"

fun clauses :: "logical \<Rightarrow> logical list list" where
  "clauses (Conjunction terms) = concat (map clauses terms)"
| "clauses (Disjunction terms) = distribute (map clauses terms)"
| "clauses t = [[t]]"

fun to_onf :: "logical \<Rightarrow> logical" where
  "to_onf (Universal variables t) = Universal variables (to_onf t)"
| "to_onf (Existential variables t) = Existential variables (to_onf t)"
| "to_onf t = all_of (map any_of (clauses t))"

subsection \<open>The stages and \<^verbatim>\<open>ff_pcnf\<close>\<close>

text \<open>
  Each stage hands a deep copy of the sentence to its helper and wraps the result in a new
  \<^verbatim>\<open>Axiom\<close>. Sentences are values here, so the copy is the sentence itself; the
  objects, their identity and the copy are the subject of the next section.
\<close>

definition substitute_functions :: "axiom \<Rightarrow> pstate \<Rightarrow> axiom \<times> pstate" where
  "substitute_functions a st =
     (case dfs_functions (sentence a) (function_counter st) of
        (t, c) \<Rightarrow> Axiom t (st\<lparr>function_counter := c\<rparr>))"

definition standardize_variables :: "(nat \<Rightarrow> string) \<Rightarrow> axiom \<Rightarrow> pstate \<Rightarrow> axiom \<times> pstate" where
  "standardize_variables gen a st = Axiom (fst (dfs_standardize gen [] (sentence a) 0)) st"

definition push_negation :: "axiom \<Rightarrow> pstate \<Rightarrow> axiom \<times> pstate" where
  "push_negation a st = Axiom (dfs_negate (sentence a)) st"

definition create_prenex :: "axiom \<Rightarrow> pstate \<Rightarrow> axiom \<times> pstate" where
  "create_prenex a st =
     (let ret_obj = prenex (sentence a);
          ret_obj = (if is_quantifier ret_obj then simplify ret_obj else ret_obj)
      in Axiom ret_obj st)"

definition distribute_disjunctions :: "axiom \<Rightarrow> pstate \<Rightarrow> axiom \<times> pstate" where
  "distribute_disjunctions a st = Axiom (to_onf (sentence a)) st"

definition ff_pcnf :: "(nat \<Rightarrow> string) \<Rightarrow> axiom \<Rightarrow> pstate \<Rightarrow> axiom \<times> pstate" where
  "ff_pcnf gen a st =
     (let copied = a;
          (function_free, st) = substitute_functions copied st;
          (unique_variables, st) = standardize_variables gen function_free st;
          (distributed_negation, st) = push_negation unique_variables st;
          (prenex_form, st) = create_prenex distributed_negation st;
          (cnf, st) = distribute_disjunctions prenex_form st
      in (cnf, st))"

subsection \<open>The shapes of FF-PCNF\<close>

text \<open>No argument of a predicate is a function application.\<close>

fun function_free :: "logical \<Rightarrow> bool" where
  "function_free (Predicate name variables) = (\<not> list_ex is_function variables)"
| "function_free (Negation t) = function_free t"
| "function_free (Conjunction terms) = list_all function_free terms"
| "function_free (Disjunction terms) = list_all function_free terms"
| "function_free (Universal variables t) = function_free t"
| "function_free (Existential variables t) = function_free t"

fun quantifier_free :: "logical \<Rightarrow> bool" where
  "quantifier_free (Predicate name variables) = True"
| "quantifier_free (Negation t) = quantifier_free t"
| "quantifier_free (Conjunction terms) = list_all quantifier_free terms"
| "quantifier_free (Disjunction terms) = list_all quantifier_free terms"
| "quantifier_free (Universal variables t) = False"
| "quantifier_free (Existential variables t) = False"

text \<open>
  A literal is a predicate or a negated predicate; a clause is a literal or a disjunction
  of literals; a conjunctive normal form is a clause or a conjunction of clauses.
\<close>

fun is_literal :: "logical \<Rightarrow> bool" where
  "is_literal (Predicate name variables) = True"
| "is_literal (Negation (Predicate name variables)) = True"
| "is_literal t = False"

fun is_clause :: "logical \<Rightarrow> bool" where
  "is_clause (Disjunction terms) = list_all is_literal terms"
| "is_clause t = is_literal t"

fun is_cnf :: "logical \<Rightarrow> bool" where
  "is_cnf (Conjunction terms) = list_all is_clause terms"
| "is_cnf t = is_clause t"

text \<open>Negation stands only over predicates.\<close>

fun negation_normal :: "logical \<Rightarrow> bool" where
  "negation_normal (Predicate name variables) = True"
| "negation_normal (Negation t) = is_literal (Negation t)"
| "negation_normal (Conjunction terms) = list_all negation_normal terms"
| "negation_normal (Disjunction terms) = list_all negation_normal terms"
| "negation_normal (Universal variables t) = negation_normal t"
| "negation_normal (Existential variables t) = negation_normal t"

text \<open>The variable lists of the quantifiers of a sentence, depth first.\<close>

fun variable_lists :: "logical \<Rightarrow> string list list" where
  "variable_lists (Predicate name variables) = []"
| "variable_lists (Negation t) = variable_lists t"
| "variable_lists (Conjunction terms) = concat (map variable_lists terms)"
| "variable_lists (Disjunction terms) = concat (map variable_lists terms)"
| "variable_lists (Universal variables t) = variables # variable_lists t"
| "variable_lists (Existential variables t) = variables # variable_lists t"

section \<open>Objects and deep copies\<close>

text \<open>
  Python objects have an identity, and the stages hand a deep copy of the sentence to
  helpers that may rewrite it in place. The store maps addresses to the nodes of the
  sentences, each node holding the addresses of its children, and to the \<^verbatim>\<open>Axiom\<close>
  objects; \<open>next_addr\<close> is the first address not yet used, and \<open>class_axiom_id\<close>
  is the class attribute \<^verbatim>\<open>Axiom.axiom_id\<close>.
\<close>

type_synonym addr = nat

datatype node =
    PredicateN string "symbol list"
  | NegationN addr
  | ConjunctionN "addr list"
  | DisjunctionN "addr list"
  | UniversalN "string list" addr
  | ExistentialN "string list" addr

record axiom_object =
  sentence_ref :: addr
  object_id :: int

record store =
  nodes :: "addr \<Rightarrow> node option"
  axiom_objects :: "addr \<Rightarrow> axiom_object option"
  next_addr :: addr
  class_axiom_id :: int

fun children :: "node \<Rightarrow> addr list" where
  "children (PredicateN name variables) = []"
| "children (NegationN a) = [a]"
| "children (ConjunctionN as) = as"
| "children (DisjunctionN as) = as"
| "children (UniversalN variables a) = [a]"
| "children (ExistentialN variables a) = [a]"

text \<open>The addresses that can be reached from an address through the children.\<close>

inductive_set reach :: "store \<Rightarrow> addr \<Rightarrow> addr set" for s :: store and a :: addr where
  root: "a \<in> reach s a"
| child: "b \<in> reach s a \<Longrightarrow> nodes s b = Some n \<Longrightarrow> c \<in> set (children n) \<Longrightarrow> c \<in> reach s a"

text \<open>Constructing a node, and building a whole tree from new nodes.\<close>

definition new_node :: "node \<Rightarrow> store \<Rightarrow> addr \<times> store" where
  "new_node n s =
     (next_addr s, s\<lparr>nodes := (nodes s)(next_addr s \<mapsto> n), next_addr := Suc (next_addr s)\<rparr>)"

fun alloc :: "logical \<Rightarrow> store \<Rightarrow> addr \<times> store"
  and alloc_list :: "logical list \<Rightarrow> store \<Rightarrow> addr list \<times> store" where
  "alloc (Predicate name variables) s = new_node (PredicateN name variables) s"
| "alloc (Negation t) s = (case alloc t s of (a, s') \<Rightarrow> new_node (NegationN a) s')"
| "alloc (Conjunction terms) s =
     (case alloc_list terms s of (as, s') \<Rightarrow> new_node (ConjunctionN as) s')"
| "alloc (Disjunction terms) s =
     (case alloc_list terms s of (as, s') \<Rightarrow> new_node (DisjunctionN as) s')"
| "alloc (Universal variables t) s =
     (case alloc t s of (a, s') \<Rightarrow> new_node (UniversalN variables a) s')"
| "alloc (Existential variables t) s =
     (case alloc t s of (a, s') \<Rightarrow> new_node (ExistentialN variables a) s')"
| "alloc_list [] s = ([], s)"
| "alloc_list (t # ts) s =
     (case alloc t s of (a, s') \<Rightarrow> (case alloc_list ts s' of (as, s'') \<Rightarrow> (a # as, s'')))"

text \<open>
  The tree that an address denotes, read to the depth \<open>limit\<close> at most: the
  interpreter's recursion limit.
\<close>

fun tree_of :: "nat \<Rightarrow> store \<Rightarrow> addr \<Rightarrow> logical option"
  and trees_of :: "nat \<Rightarrow> store \<Rightarrow> addr list \<Rightarrow> logical list option" where
  "tree_of 0 s a = None"
| "tree_of (Suc k) s a =
     (case nodes s a of
        None \<Rightarrow> None
      | Some (PredicateN name variables) \<Rightarrow> Some (Predicate name variables)
      | Some (NegationN b) \<Rightarrow> map_option Negation (tree_of k s b)
      | Some (ConjunctionN bs) \<Rightarrow> map_option Conjunction (trees_of k s bs)
      | Some (DisjunctionN bs) \<Rightarrow> map_option Disjunction (trees_of k s bs)
      | Some (UniversalN variables b) \<Rightarrow> map_option (Universal variables) (tree_of k s b)
      | Some (ExistentialN variables b) \<Rightarrow> map_option (Existential variables) (tree_of k s b))"
| "trees_of k s [] = Some []"
| "trees_of k s (a # as) =
     (case tree_of k s a of
        None \<Rightarrow> None
      | Some t \<Rightarrow> (case trees_of k s as of None \<Rightarrow> None | Some ts \<Rightarrow> Some (t # ts)))"

text \<open>
  \<^verbatim>\<open>copy.deepcopy\<close> of the standard library: it reads the tree below the object and
  builds it again from new objects, and it fails with a \<^verbatim>\<open>RecursionError\<close> on a tree
  deeper than the limit. A subterm that is reached twice is copied twice here, where the
  memo of \<^verbatim>\<open>deepcopy\<close> would copy it once; the objects of the copy are new in both.
\<close>

definition deepcopy :: "nat \<Rightarrow> store \<Rightarrow> addr \<Rightarrow> error + addr \<times> store" where
  "deepcopy limit s a =
     (case tree_of limit s a of None \<Rightarrow> Inl RecursionError | Some t \<Rightarrow> Inr (alloc t s))"

text \<open>
  \<^verbatim>\<open>Axiom.__init__\<close>: a \<^verbatim>\<open>ValueError\<close> unless the sentence is a logical node; the new
  object takes the value of the class counter as its id, and the counter is incremented.
\<close>

definition new_Axiom :: "addr \<Rightarrow> store \<Rightarrow> error + addr \<times> store" where
  "new_Axiom r s =
     (if nodes s r = None then Inl (ValueError ''Axiom's need Logicals'')
      else Inr (next_addr s,
                s\<lparr>axiom_objects := (axiom_objects s)(next_addr s \<mapsto>
                       \<lparr>sentence_ref = r, object_id = class_axiom_id s\<rparr>),
                  next_addr := Suc (next_addr s),
                  class_axiom_id := class_axiom_id s + 1\<rparr>))"

text \<open>
  The shape that the five stage methods share: \<^verbatim>\<open>copy.deepcopy(self.sentence)\<close>, the
  work on the copy, and \<^verbatim>\<open>Axiom(...)\<close> around what the work returns. The work
  (\<^verbatim>\<open>Util.dfs_functions\<close>, \<^verbatim>\<open>Util.dfs_standardize\<close>, \<^verbatim>\<open>Util.dfs_negate\<close>, the
  loop of \<^verbatim>\<open>create_prenex\<close> over \<^verbatim>\<open>coalesce\<close> and \<^verbatim>\<open>rescope\<close>, \<^verbatim>\<open>to_onf\<close>)
  rests on helpers that are not among the sources, so it is the parameter \<open>util\<close>: a
  function of the store and the address of the copy that fails or returns an address and
  the store it leaves.
\<close>

definition stage ::
  "(store \<Rightarrow> addr \<Rightarrow> error + addr \<times> store) \<Rightarrow> nat \<Rightarrow> addr \<Rightarrow> store \<Rightarrow> error + addr \<times> store" where
  "stage util limit self s =
     (case axiom_objects s self of
        None \<Rightarrow> Inl (TypeError ''not an Axiom'')
      | Some a \<Rightarrow>
          (case deepcopy limit s (sentence_ref a) of
             Inl e \<Rightarrow> Inl e
           | Inr (ret_object, s1) \<Rightarrow>
               (case util s1 ret_object of
                  Inl e \<Rightarrow> Inl e
                | Inr (r, s2) \<Rightarrow> new_Axiom r s2)))"

text \<open>
  A store is well formed when every node lies below \<^const>\<open>next_addr\<close> together with its
  children, and every \<^verbatim>\<open>Axiom\<close> object lies below it, refers to a sentence below it and
  has an id that the class counter has passed.
\<close>

definition wf_nodes :: "store \<Rightarrow> bool" where
  "wf_nodes s = (\<forall>b n. nodes s b = Some n \<longrightarrow>
      b < next_addr s \<and> (\<forall>c \<in> set (children n). c < next_addr s))"

definition wf_store :: "store \<Rightarrow> bool" where
  "wf_store s = (wf_nodes s \<and> (\<forall>b a. axiom_objects s b = Some a \<longrightarrow>
      b < next_addr s \<and> sentence_ref a < next_addr s \<and> object_id a < class_axiom_id s))"

text \<open>
  What is asked of the work on the copy: it keeps its hands off the objects it has not
  been given. It may change the nodes it can reach from its argument and make new ones;
  it changes no other node, no \<^verbatim>\<open>Axiom\<close> object and not the class counter, and what it
  returns is made of the nodes it was given and of new ones.
\<close>

definition local_helper :: "(store \<Rightarrow> addr \<Rightarrow> error + addr \<times> store) \<Rightarrow> bool" where
  "local_helper util = (\<forall>s a r s'. wf_nodes s \<and> util s a = Inr (r, s') \<longrightarrow>
      next_addr s \<le> next_addr s'
    \<and> (\<forall>b. b < next_addr s \<and> b \<notin> reach s a \<longrightarrow> nodes s' b = nodes s b)
    \<and> axiom_objects s' = axiom_objects s
    \<and> class_axiom_id s' = class_axiom_id s
    \<and> reach s' r \<subseteq> reach s a \<union> {b. next_addr s \<le> b})"

text \<open>
  A helper that is a function of the tree, as the pipeline's helpers are modelled above:
  it reads the tree of the copy and builds its result from new nodes.
\<close>

definition lift_helper :: "nat \<Rightarrow> (logical \<Rightarrow> logical) \<Rightarrow> store \<Rightarrow> addr \<Rightarrow> error + addr \<times> store" where
  "lift_helper limit f s a =
     (case tree_of limit s a of None \<Rightarrow> Inl RecursionError | Some t \<Rightarrow> Inr (alloc (f t) s))"

text \<open>Auxiliary notions for the proofs about the store.\<close>

fun height :: "logical \<Rightarrow> nat" and heights :: "logical list \<Rightarrow> nat" where
  "height (Predicate name variables) = Suc 0"
| "height (Negation t) = Suc (height t)"
| "height (Conjunction terms) = Suc (heights terms)"
| "height (Disjunction terms) = Suc (heights terms)"
| "height (Universal variables t) = Suc (height t)"
| "height (Existential variables t) = Suc (height t)"
| "heights [] = 0"
| "heights (t # ts) = max (height t) (heights ts)"

definition fresh_closed :: "addr \<Rightarrow> store \<Rightarrow> bool" where
  "fresh_closed m s = (\<forall>b n. m \<le> b \<and> nodes s b = Some n \<longrightarrow>
      b < next_addr s \<and> (\<forall>c \<in> set (children n). m \<le> c \<and> c < next_addr s))"

definition extends :: "store \<Rightarrow> store \<Rightarrow> bool" where
  "extends s s' = (\<forall>b n. nodes s b = Some n \<longrightarrow> nodes s' b = Some n)"

text \<open>
  A store with the sentence \<open>\<not>\<not>P(x)\<close> at address 2 and an axiom with id 1 at
  address 3.
\<close>

definition example_store :: store where
  "example_store =
     \<lparr>nodes = [0 \<mapsto> PredicateN ''P'' [Var ''x''], 1 \<mapsto> NegationN 0, 2 \<mapsto> NegationN 1],
      axiom_objects = [3 \<mapsto> \<lparr>sentence_ref = 2, object_id = 1\<rparr>],
      next_addr = 4,
      class_axiom_id = 2\<rparr>"

section \<open>Properties\<close>

subsection \<open>Helper facts\<close>

lemmas str_case_defs =
  str_upper_def str_lower_def translate_def ascii_lowercase_def ascii_uppercase_def

lemma tptp_logical_fof_body:
  "binary_equalities t \<Longrightarrow> tptp_logical t = Inr (fof_body t)"
  "list_all binary_equalities ts \<Longrightarrow> tptp_logicals ts = Inr (map fof_body ts)"
proof (induction t and ts rule: tptp_logical_tptp_logicals.induct)
  case (1 name variables)
  then show ?case
    by (cases variables; cases "tl variables"; cases "tl (tl variables)")
       (auto simp: is_equality_def)
qed (auto simp: tptp_prefix_def)

lemma vampire_status_first_keyword: "vampire_status line = first_keyword line"
  by (simp add: vampire_status_def first_keyword_def vampire_keywords_def)

lemma to_ladr_equality_prefix:
  assumes "ladr_symbol a = Inr ra" and "ladr_symbol b = Inr rb"
  shows "to_ladr \<lparr>sentence = Predicate ''='' [a, b], ax_id = n\<rparr>
           = Inr (''=('' @ ra @ '','' @ rb @ '').'')"
  using assms by (simp add: to_ladr_def)

subsection \<open>Helper facts about the pipeline\<close>


lemma function_free_all_of: "list_all function_free ts \<Longrightarrow> function_free (all_of ts)"
  by (cases ts rule: all_of.cases) auto

lemma function_free_any_of: "list_all function_free ts \<Longrightarrow> function_free (any_of ts)"
  by (cases ts rule: any_of.cases) auto

lemma not_function_Var: "\<not> list_ex is_function (map Var names)"
  by (induction names) auto

lemma flatten_function_free:
  "flatten_symbol x c = (v, fresh, rels, c') \<Longrightarrow> list_all function_free rels"
  "flatten_symbols xs c = (vs, fresh', rels', c'') \<Longrightarrow> list_all function_free rels'"
proof (induction x c and xs c arbitrary: v fresh rels c' and vs fresh' rels' c''
        rule: flatten_symbol_flatten_symbols.induct)
  case (2 name variables c)
  then show ?case
    by (auto split: prod.splits simp: Let_def not_function_Var simp del: map_append)
next
  case (4 x xs c)
  then show ?case by (auto split: prod.splits)
qed auto

lemma dfs_functions_function_free:
  "function_free (fst (dfs_functions t c))"
  "list_all function_free (fst (dfs_functions_list ts c))"
proof (induction t c and ts c rule: dfs_functions_dfs_functions_list.induct)
  case (1 name variables c)
  then show ?case
    by (auto split: prod.splits simp: not_function_Var function_free_all_of
          dest: flatten_function_free(2))
qed (auto split: prod.splits)

lemma is_function_rename: "is_function (rename env x) = is_function x"
  by (cases x) auto

lemma dfs_standardize_function_free:
  "function_free t \<Longrightarrow> function_free (fst (dfs_standardize gen env t k))"
  "list_all function_free ts \<Longrightarrow> list_all function_free (fst (dfs_standardize_list gen env ts k))"
  by (induction gen env t k and gen env ts k rule: dfs_standardize_dfs_standardize_list.induct)
     (auto split: prod.splits simp: Let_def list_ex_iff is_function_rename)

lemma dfs_negate_function_free:
  "function_free t \<Longrightarrow> function_free (dfs_negate t)"
  "function_free t \<Longrightarrow> function_free (negated t)"
  by (induction t and t rule: dfs_negate_negated.induct) (auto simp: list_all_iff)

lemma function_free_quantify: "function_free (quantify bs t) = function_free t"
  by (induction bs t rule: quantify.induct) auto

lemma function_free_matrix: "function_free (matrix t) = function_free t"
  by (induction t rule: matrix.induct) auto

lemma function_free_rescope:
  assumes "list_all function_free terms"
  shows "function_free (rescope Conjunction terms)" "function_free (rescope Disjunction terms)"
  using assms by (auto simp: rescope_def function_free_quantify list_all_iff function_free_matrix)

lemma prenex_function_free: "function_free t \<Longrightarrow> function_free (prenex t)"
proof (induction t rule: prenex.induct)
  case (3 terms)
  then show ?case
    unfolding prenex.simps by (intro function_free_rescope) (auto simp: list_all_iff)
next
  case (4 terms)
  then show ?case
    unfolding prenex.simps by (intro function_free_rescope) (auto simp: list_all_iff)
qed auto

lemma simplify_function_free: "function_free (simplify t) = function_free t"
  by (simp add: simplify_def function_free_quantify function_free_matrix)

lemma distribute_all:
  "\<forall>cs \<in> set css. \<forall>c \<in> set cs. list_all P c \<Longrightarrow> \<forall>c \<in> set (distribute css). list_all P c"
  by (induction css) (auto simp: list_all_iff)

lemma clauses_function_free:
  "function_free t \<Longrightarrow> \<forall>c \<in> set (clauses t). list_all function_free c"
proof (induction t rule: clauses.induct)
  case (2 terms)
  then show ?case
    unfolding clauses.simps by (intro distribute_all) (auto simp: list_all_iff)
qed (auto simp: list_all_iff)

lemma cnf_of_function_free:
  assumes "function_free t"
  shows "function_free (all_of (map any_of (clauses t)))"
proof (rule function_free_all_of)
  show "list_all function_free (map any_of (clauses t))"
    using clauses_function_free [OF assms] by (auto simp: list_all_iff function_free_any_of)
qed

lemma to_onf_plain: "\<not> is_quantifier t \<Longrightarrow> to_onf t = all_of (map any_of (clauses t))"
  by (cases t) simp_all

lemma to_onf_function_free: "function_free t \<Longrightarrow> function_free (to_onf t)"
proof (induction t)
  case (Predicate name variables)
  then show ?case by (simp only: to_onf_plain is_quantifier.simps cnf_of_function_free simp_thms)
next
  case (Negation t)
  from Negation.prems show ?case
    by (simp only: to_onf_plain is_quantifier.simps cnf_of_function_free simp_thms)
next
  case (Conjunction terms)
  from Conjunction.prems show ?case
    by (simp only: to_onf_plain is_quantifier.simps cnf_of_function_free simp_thms)
next
  case (Disjunction terms)
  from Disjunction.prems show ?case
    by (simp only: to_onf_plain is_quantifier.simps cnf_of_function_free simp_thms)
qed simp_all

lemma dfs_negate_normal:
  "negation_normal (dfs_negate t)" "negation_normal (negated t)"
  by (induction t and t rule: dfs_negate_negated.induct) (auto simp: list_all_iff)


lemma matrix_quantify: "matrix (quantify bs t) = matrix t"
  by (induction bs t rule: quantify.induct) auto

lemma matrix_idem: "matrix (matrix t) = matrix t"
  by (induction t rule: matrix.induct) auto

lemma prenex_matrix:
  "negation_normal t \<Longrightarrow> quantifier_free (matrix (prenex t)) \<and> negation_normal (matrix (prenex t))"
proof (induction t rule: prenex.induct)
  case (2 t)
  then show ?case by (cases t) auto
next
  case (3 terms)
  then show ?case by (auto simp: rescope_def matrix_quantify list_all_iff)
next
  case (4 terms)
  then show ?case by (auto simp: rescope_def matrix_quantify list_all_iff)
qed auto

lemma matrix_simplify: "matrix (simplify t) = matrix t"
  by (simp add: simplify_def matrix_quantify matrix_idem)


lemma clauses_literals:
  "quantifier_free t \<Longrightarrow> negation_normal t \<Longrightarrow> \<forall>c \<in> set (clauses t). list_all is_literal c"
proof (induction t)
  case (Negation t)
  then show ?case by (cases t) auto
next
  case (Disjunction terms)
  then show ?case
    unfolding clauses.simps by (intro distribute_all) (auto simp: list_all_iff)
qed (auto simp: list_all_iff)

lemma is_clause_any_of: "list_all is_literal c \<Longrightarrow> is_clause (any_of c)"
proof (cases c rule: any_of.cases)
  case (1 t)
  assume "list_all is_literal c"
  with 1 show ?thesis by (cases t rule: is_literal.cases) auto
qed auto

lemma is_cnf_all_of: "list_all is_clause cs \<Longrightarrow> is_cnf (all_of cs)"
proof (cases cs rule: all_of.cases)
  case (1 t)
  assume "list_all is_clause cs"
  with 1 show ?thesis by (cases t rule: is_cnf.cases) auto
qed auto

lemma is_literal_quantifier_free: "is_literal t \<Longrightarrow> quantifier_free t"
  by (induction t rule: is_literal.induct) auto

lemma is_clause_quantifier_free: "is_clause t \<Longrightarrow> quantifier_free t"
  by (cases t) (auto simp: list_all_iff dest: is_literal_quantifier_free)

lemma is_cnf_quantifier_free: "is_cnf t \<Longrightarrow> quantifier_free t"
  by (cases t) (auto simp: list_all_iff dest: is_clause_quantifier_free is_literal_quantifier_free)

lemma quantifier_free_matrix: "quantifier_free t \<Longrightarrow> matrix t = t"
  by (cases t) auto

lemma cnf_of_literals:
  assumes "quantifier_free t" and "negation_normal t"
  shows "is_cnf (all_of (map any_of (clauses t)))"
proof (rule is_cnf_all_of)
  show "list_all is_clause (map any_of (clauses t))"
    using clauses_literals [OF assms] by (auto simp: list_all_iff is_clause_any_of)
qed

lemma to_onf_cnf:
  "quantifier_free (matrix t) \<Longrightarrow> negation_normal (matrix t) \<Longrightarrow> is_cnf (matrix (to_onf t))"
proof (induction t)
  case (Universal variables t) then show ?case by simp
next
  case (Existential variables t) then show ?case by simp
next
  case (Predicate name variables) then show ?case by simp
next
  case (Negation t)
  then show ?case by (cases t) auto
next
  case (Conjunction terms)
  from Conjunction.prems have c: "is_cnf (all_of (map any_of (clauses (Conjunction terms))))"
    by (intro cnf_of_literals) simp_all
  from quantifier_free_matrix [OF is_cnf_quantifier_free [OF c]] c
  show ?case by (simp only: to_onf_plain is_quantifier.simps simp_thms)
next
  case (Disjunction terms)
  from Disjunction.prems have c: "is_cnf (all_of (map any_of (clauses (Disjunction terms))))"
    by (intro cnf_of_literals) simp_all
  from quantifier_free_matrix [OF is_cnf_quantifier_free [OF c]] c
  show ?case by (simp only: to_onf_plain is_quantifier.simps simp_thms)
qed


lemma sentence_Axiom: "sentence (fst (Axiom t st)) = t"
  by (simp add: Axiom_def)

lemma function_counter_Axiom: "function_counter (snd (Axiom t st)) = function_counter st"
  by (simp add: Axiom_def)

lemma sentence_substitute_functions:
  "sentence (fst (substitute_functions a st))
     = fst (dfs_functions (sentence a) (function_counter st))"
  by (simp add: substitute_functions_def split_beta sentence_Axiom)

lemma sentence_standardize_variables:
  "sentence (fst (standardize_variables gen a st)) = fst (dfs_standardize gen [] (sentence a) 0)"
  by (simp add: standardize_variables_def sentence_Axiom)

lemma sentence_push_negation: "sentence (fst (push_negation a st)) = dfs_negate (sentence a)"
  by (simp add: push_negation_def sentence_Axiom)

lemma sentence_create_prenex: "sentence (fst (create_prenex a st)) = prenex_tree (sentence a)"
  by (simp add: create_prenex_def prenex_tree_def Let_def sentence_Axiom)

lemma sentence_distribute_disjunctions:
  "sentence (fst (distribute_disjunctions a st)) = to_onf (sentence a)"
  by (simp add: distribute_disjunctions_def sentence_Axiom)

lemma ff_pcnf_sentence:
  "sentence (fst (ff_pcnf gen a st)) =
     to_onf (prenex_tree (dfs_negate (fst (dfs_standardize gen []
       (fst (dfs_functions (sentence a) (function_counter st))) 0))))"
  by (simp add: ff_pcnf_def Let_def split_beta sentence_substitute_functions
        sentence_standardize_variables sentence_push_negation sentence_create_prenex
        sentence_distribute_disjunctions)

lemma dfs_standardize_fresh:
  "dfs_standardize gen env t k = (t', k')
     \<Longrightarrow> k \<le> k' \<and> concat (variable_lists t') = map gen [k ..< k']"
  "dfs_standardize_list gen env ts k = (ts', k'')
     \<Longrightarrow> k \<le> k'' \<and> concat (concat (map variable_lists ts')) = map gen [k ..< k'']"
proof (induction gen env t k and gen env ts k arbitrary: t' k' and ts' k''
        rule: dfs_standardize_dfs_standardize_list.induct)
  case (5 gen env variables t k)
  obtain u j where u: "dfs_standardize gen (zip variables (map gen [k ..< k + length variables]) @ env)
      t (k + length variables) = (u, j)"
    by (cases "dfs_standardize gen (zip variables (map gen [k ..< k + length variables]) @ env)
      t (k + length variables)") auto
  from "5.IH" [OF refl u] have le: "k + length variables \<le> j"
    and eq: "concat (variable_lists u) = map gen [k + length variables ..< j]" by auto
  from "5.prems" u have t': "t' = Universal (map gen [k ..< k + length variables]) u" and "k' = j"
    by (auto simp: Let_def)
  moreover have "[k ..< j] = [k ..< k + length variables] @ [k + length variables ..< j]"
    using le by (metis le_add1 le_Suc_ex upt_add_eq_append)
  ultimately show ?case using le eq by simp
next
  case (6 gen env variables t k)
  obtain u j where u: "dfs_standardize gen (zip variables (map gen [k ..< k + length variables]) @ env)
      t (k + length variables) = (u, j)"
    by (cases "dfs_standardize gen (zip variables (map gen [k ..< k + length variables]) @ env)
      t (k + length variables)") auto
  from "6.IH" [OF refl u] have le: "k + length variables \<le> j"
    and eq: "concat (variable_lists u) = map gen [k + length variables ..< j]" by auto
  from "6.prems" u have t': "t' = Existential (map gen [k ..< k + length variables]) u" and "k' = j"
    by (auto simp: Let_def)
  moreover have "[k ..< j] = [k ..< k + length variables] @ [k + length variables ..< j]"
    using le by (metis le_add1 le_Suc_ex upt_add_eq_append)
  ultimately show ?case using le eq by simp
next
  case (8 gen env t ts k)
  obtain u j where u: "dfs_standardize gen env t k = (u, j)"
    by (cases "dfs_standardize gen env t k") auto
  obtain us i where us: "dfs_standardize_list gen env ts j = (us, i)"
    by (cases "dfs_standardize_list gen env ts j") auto
  from "8.IH"(1) [OF u] have 1: "k \<le> j" "concat (variable_lists u) = map gen [k ..< j]" by auto
  from "8.IH"(2) [OF u [symmetric] us] have 2: "j \<le> i"
    "concat (concat (map variable_lists us)) = map gen [j ..< i]" by auto
  from "8.prems" u us have "ts' = u # us" "k'' = i" by auto
  moreover have "[k ..< i] = [k ..< j] @ [j ..< i]"
    using 1 2 by (metis le_Suc_ex upt_add_eq_append)
  ultimately show ?case using 1 2 by simp
qed (auto split: prod.splits)

lemma standardize_variables_names:
  "\<exists>n. concat (variable_lists (sentence (fst (standardize_variables gen a st)))) = map gen [0 ..< n]"
proof -
  obtain t k where "dfs_standardize gen [] (sentence a) 0 = (t, k)"
    by (cases "dfs_standardize gen [] (sentence a) 0") auto
  from dfs_standardize_fresh(1) [OF this] this show ?thesis
    by (auto simp: sentence_standardize_variables)
qed

lemma distinct_drawn: "inj gen \<Longrightarrow> distinct (map gen [0 ..< n])"
  by (simp add: distinct_map inj_on_def inj_def)

lemma inj_generator: "inj generator"
proof (rule injI)
  fix a b assume eq: "generator a = generator b"
  then have "length (generator a) = length (generator b)" by simp
  then have d: "a div 26 = b div 26" by (simp add: generator_def)
  from eq have "hd (generator a) = hd (generator b)" by simp
  then have "rev ascii_lowercase ! (a mod 26) = rev ascii_lowercase ! (b mod 26)"
    by (simp add: generator_def)
  moreover have "distinct (rev ascii_lowercase)" "length (rev ascii_lowercase) = 26"
    by (simp_all add: ascii_lowercase_def)
  ultimately have "a mod 26 = b mod 26"
    by (simp add: nth_eq_iff_index_eq)
  with d show "a = b" by (metis div_mult_mod_eq)
qed

lemma generator_first: "map generator [0 ..< 3] = [''z'', ''y'', ''x'']"
  by (simp add: generator_def ascii_lowercase_def upt_rec)

subsection \<open>Helper facts about the store\<close>

lemma wf_nodes_fresh_closed: "wf_nodes s = fresh_closed 0 s"
  by (simp add: wf_nodes_def fresh_closed_def)

lemma extends_refl: "extends s s"
  by (simp add: extends_def)

lemma extends_trans: "extends s s' \<Longrightarrow> extends s' s'' \<Longrightarrow> extends s s''"
  by (simp add: extends_def)

lemma new_node_frame:
  assumes "new_node n s = (a, s')"
  shows "a = next_addr s" "next_addr s' = Suc (next_addr s)"
    "nodes s' = (nodes s)(next_addr s \<mapsto> n)"
    "axiom_objects s' = axiom_objects s" "class_axiom_id s' = class_axiom_id s"
  using assms by (auto simp: new_node_def)

lemma new_node_closed:
  assumes "new_node n s = (a, s')" and "fresh_closed m s" and "m \<le> next_addr s"
    and "\<forall>c \<in> set (children n). m \<le> c \<and> c < next_addr s"
  shows "fresh_closed m s'"
proof -
  from assms(1) have s': "nodes s' = (nodes s)(next_addr s \<mapsto> n)"
    "next_addr s' = Suc (next_addr s)" by (auto simp: new_node_def)
  show ?thesis
    unfolding fresh_closed_def
  proof (intro allI impI)
    fix b k assume b: "m \<le> b \<and> nodes s' b = Some k"
    show "b < next_addr s' \<and> (\<forall>c \<in> set (children k). m \<le> c \<and> c < next_addr s')"
    proof (cases "b = next_addr s")
      case True
      with b s' have "k = n" by simp
      with True assms(4) s' show ?thesis by (auto simp: less_Suc_eq)
    next
      case False
      with b s' have "m \<le> b \<and> nodes s b = Some k" by simp
      with assms(2) have "b < next_addr s \<and> (\<forall>c \<in> set (children k). m \<le> c \<and> c < next_addr s)"
        unfolding fresh_closed_def by blast
      with s' show ?thesis by (auto simp: less_Suc_eq)
    qed
  qed
qed

lemma alloc_frame:
  "alloc t s = (a, s') \<Longrightarrow>
     next_addr s \<le> a \<and> a < next_addr s' \<and> next_addr s \<le> next_addr s'
     \<and> (\<forall>b < next_addr s. nodes s' b = nodes s b)
     \<and> axiom_objects s' = axiom_objects s \<and> class_axiom_id s' = class_axiom_id s"
  "alloc_list ts s = (as, s'') \<Longrightarrow>
     (\<forall>a \<in> set as. next_addr s \<le> a \<and> a < next_addr s'') \<and> next_addr s \<le> next_addr s''
     \<and> (\<forall>b < next_addr s. nodes s'' b = nodes s b)
     \<and> axiom_objects s'' = axiom_objects s \<and> class_axiom_id s'' = class_axiom_id s"
proof (induction t s and ts s arbitrary: a s' and as s'' rule: alloc_alloc_list.induct)
  case (8 t ts s)
  obtain a1 s1 where 1: "alloc t s = (a1, s1)" by (cases "alloc t s") auto
  obtain as2 s2 where 2: "alloc_list ts s1 = (as2, s2)" by (cases "alloc_list ts s1") auto
  from "8.prems" 1 2 have [simp]: "as = a1 # as2" "s'' = s2" by auto
  from "8.IH"(1) [OF 1] "8.IH"(2) [OF 1 [symmetric] 2] show ?case by force
qed (fastforce simp: new_node_def split: prod.splits)+

lemma alloc_closed:
  "alloc t s = (a, s') \<Longrightarrow> m \<le> next_addr s \<Longrightarrow> fresh_closed m s \<Longrightarrow> fresh_closed m s'"
  "alloc_list ts s = (as, s'') \<Longrightarrow> m \<le> next_addr s \<Longrightarrow> fresh_closed m s \<Longrightarrow> fresh_closed m s''"
proof (induction t s and ts s arbitrary: a s' and as s'' rule: alloc_alloc_list.induct)
  case (1 name variables s)
  then show ?case by (auto intro: new_node_closed)
next
  case (2 t s)
  obtain b s1 where 1: "alloc t s = (b, s1)" by (cases "alloc t s") auto
  with "2.prems" have n: "new_node (NegationN b) s1 = (a, s')" by simp
  from alloc_frame(1) [OF 1] "2.prems" "2.IH" [OF 1] show ?case
    by (intro new_node_closed [OF n]) auto
next
  case (3 terms s)
  obtain bs s1 where 1: "alloc_list terms s = (bs, s1)" by (cases "alloc_list terms s") auto
  with "3.prems" have n: "new_node (ConjunctionN bs) s1 = (a, s')" by simp
  from alloc_frame(2) [OF 1] "3.prems" "3.IH" [OF 1] show ?case
    by (intro new_node_closed [OF n]) auto
next
  case (4 terms s)
  obtain bs s1 where 1: "alloc_list terms s = (bs, s1)" by (cases "alloc_list terms s") auto
  with "4.prems" have n: "new_node (DisjunctionN bs) s1 = (a, s')" by simp
  from alloc_frame(2) [OF 1] "4.prems" "4.IH" [OF 1] show ?case
    by (intro new_node_closed [OF n]) auto
next
  case (5 variables t s)
  obtain b s1 where 1: "alloc t s = (b, s1)" by (cases "alloc t s") auto
  with "5.prems" have n: "new_node (UniversalN variables b) s1 = (a, s')" by simp
  from alloc_frame(1) [OF 1] "5.prems" "5.IH" [OF 1] show ?case
    by (intro new_node_closed [OF n]) auto
next
  case (6 variables t s)
  obtain b s1 where 1: "alloc t s = (b, s1)" by (cases "alloc t s") auto
  with "6.prems" have n: "new_node (ExistentialN variables b) s1 = (a, s')" by simp
  from alloc_frame(1) [OF 1] "6.prems" "6.IH" [OF 1] show ?case
    by (intro new_node_closed [OF n]) auto
next
  case (7 s)
  then show ?case by simp
next
  case (8 t ts s)
  obtain a1 s1 where 1: "alloc t s = (a1, s1)" by (cases "alloc t s") auto
  obtain as2 s2 where 2: "alloc_list ts s1 = (as2, s2)" by (cases "alloc_list ts s1") auto
  from "8.prems" 1 2 have [simp]: "s'' = s2" by auto
  from alloc_frame(1) [OF 1] "8.prems" have "m \<le> next_addr s1" by simp
  with "8.IH"(1) [OF 1] "8.IH"(2) [OF 1 [symmetric] 2] "8.prems" show ?case by simp
qed

lemma alloc_extends:
  assumes "alloc t s = (a, s')" and "wf_nodes s"
  shows "extends s s'"
  using alloc_frame(1) [OF assms(1)] assms(2) by (auto simp: extends_def wf_nodes_def)

lemma alloc_list_extends:
  assumes "alloc_list ts s = (as, s')" and "wf_nodes s"
  shows "extends s s'"
  using alloc_frame(2) [OF assms(1)] assms(2) by (auto simp: extends_def wf_nodes_def)

lemma wf_nodes_next: "wf_nodes s \<Longrightarrow> nodes s (next_addr s) = None"
  by (metis less_irrefl not_Some_eq wf_nodes_def)

lemma new_node_extends:
  assumes "new_node n s = (a, s')" and "wf_nodes s"
  shows "extends s s'"
  using assms(1) wf_nodes_next [OF assms(2)] by (auto simp: extends_def new_node_def)

lemma tree_of_stable:
  "tree_of k s a = Some t \<Longrightarrow> extends s s' \<Longrightarrow> tree_of k s' a = Some t"
  "trees_of k s as = Some ts \<Longrightarrow> extends s s' \<Longrightarrow> trees_of k s' as = Some ts"
proof (induction k s a and k s as arbitrary: t and ts rule: tree_of_trees_of.induct)
  case (2 k s a)
  then obtain n where n: "nodes s a = Some n" by (auto split: option.splits)
  with "2.prems" have n': "nodes s' a = Some n" by (simp add: extends_def)
  from "2.prems" n n' "2.IH" show ?case
    by (cases n) (auto split: option.splits)
next
  case (4 k s a as)
  then show ?case by (auto split: option.splits)
qed auto

lemma tree_of_height:
  "tree_of k s a = Some t \<Longrightarrow> height t \<le> k"
  "trees_of k s as = Some ts \<Longrightarrow> heights ts \<le> k"
proof (induction k s a and k s as arbitrary: t and ts rule: tree_of_trees_of.induct)
  case (2 k s a)
  then obtain n where n: "nodes s a = Some n" by (auto split: option.splits)
  from "2.prems" n "2.IH" show ?case
    by (cases n) (auto split: option.splits)
next
  case (4 k s a as)
  then show ?case by (auto split: option.splits)
qed auto


lemma alloc_wf:
  assumes "alloc t s = (a, s')" and "wf_nodes s"
  shows "wf_nodes s'"
  using alloc_closed(1) [OF assms(1), of 0] assms(2) by (simp add: wf_nodes_fresh_closed)

lemma alloc_list_wf:
  assumes "alloc_list ts s = (as, s')" and "wf_nodes s"
  shows "wf_nodes s'"
  using alloc_closed(2) [OF assms(1), of 0] assms(2) by (simp add: wf_nodes_fresh_closed)

lemma new_node_tree_of:
  assumes "new_node n s = (a, s')"
  shows "nodes s' a = Some n"
  using assms by (auto simp: new_node_def)

lemma alloc_tree_of:
  "alloc t s = (a, s') \<Longrightarrow> wf_nodes s \<Longrightarrow> height t \<le> k \<Longrightarrow> tree_of k s' a = Some t"
  "alloc_list ts s = (as, s'') \<Longrightarrow> wf_nodes s \<Longrightarrow> heights ts \<le> k
     \<Longrightarrow> trees_of k s'' as = Some ts"
proof (induction t s and ts s arbitrary: a s' k and as s'' k rule: alloc_alloc_list.induct)
  case (1 name variables s)
  then obtain j where k: "k = Suc j" by (cases k) auto
  from "1.prems" have "new_node (PredicateN name variables) s = (a, s')" by simp
  from new_node_tree_of [OF this] k show ?case by simp
next
  case (2 t s)
  obtain b s1 where 1: "alloc t s = (b, s1)" by (cases "alloc t s") auto
  with "2.prems" have n: "new_node (NegationN b) s1 = (a, s')" by simp
  from "2.prems" obtain j where k: "k = Suc j" "height t \<le> j" by (cases k) auto
  from "2.IH" [OF 1 "2.prems"(2) k(2)]
    tree_of_stable(1) [OF _ new_node_extends [OF n alloc_wf [OF 1 "2.prems"(2)]]]
  have "tree_of j s' b = Some t" by blast
  with new_node_tree_of [OF n] k show ?case by simp
next
  case (3 terms s)
  obtain bs s1 where 1: "alloc_list terms s = (bs, s1)" by (cases "alloc_list terms s") auto
  with "3.prems" have n: "new_node (ConjunctionN bs) s1 = (a, s')" by simp
  from "3.prems" obtain j where k: "k = Suc j" "heights terms \<le> j" by (cases k) auto
  from "3.IH" [OF 1 "3.prems"(2) k(2)]
    tree_of_stable(2) [OF _ new_node_extends [OF n alloc_list_wf [OF 1 "3.prems"(2)]]]
  have "trees_of j s' bs = Some terms" by blast
  with new_node_tree_of [OF n] k show ?case by simp
next
  case (4 terms s)
  obtain bs s1 where 1: "alloc_list terms s = (bs, s1)" by (cases "alloc_list terms s") auto
  with "4.prems" have n: "new_node (DisjunctionN bs) s1 = (a, s')" by simp
  from "4.prems" obtain j where k: "k = Suc j" "heights terms \<le> j" by (cases k) auto
  from "4.IH" [OF 1 "4.prems"(2) k(2)]
    tree_of_stable(2) [OF _ new_node_extends [OF n alloc_list_wf [OF 1 "4.prems"(2)]]]
  have "trees_of j s' bs = Some terms" by blast
  with new_node_tree_of [OF n] k show ?case by simp
next
  case (5 variables t s)
  obtain b s1 where 1: "alloc t s = (b, s1)" by (cases "alloc t s") auto
  with "5.prems" have n: "new_node (UniversalN variables b) s1 = (a, s')" by simp
  from "5.prems" obtain j where k: "k = Suc j" "height t \<le> j" by (cases k) auto
  from "5.IH" [OF 1 "5.prems"(2) k(2)]
    tree_of_stable(1) [OF _ new_node_extends [OF n alloc_wf [OF 1 "5.prems"(2)]]]
  have "tree_of j s' b = Some t" by blast
  with new_node_tree_of [OF n] k show ?case by simp
next
  case (6 variables t s)
  obtain b s1 where 1: "alloc t s = (b, s1)" by (cases "alloc t s") auto
  with "6.prems" have n: "new_node (ExistentialN variables b) s1 = (a, s')" by simp
  from "6.prems" obtain j where k: "k = Suc j" "height t \<le> j" by (cases k) auto
  from "6.IH" [OF 1 "6.prems"(2) k(2)]
    tree_of_stable(1) [OF _ new_node_extends [OF n alloc_wf [OF 1 "6.prems"(2)]]]
  have "tree_of j s' b = Some t" by blast
  with new_node_tree_of [OF n] k show ?case by simp
next
  case (7 s)
  then show ?case by simp
next
  case (8 t ts s)
  obtain a1 s1 where 1: "alloc t s = (a1, s1)" by (cases "alloc t s") auto
  obtain as2 s2 where 2: "alloc_list ts s1 = (as2, s2)" by (cases "alloc_list ts s1") auto
  from "8.prems" 1 2 have eq: "as = a1 # as2" "s'' = s2" by auto
  from "8.prems" have h: "height t \<le> k" "heights ts \<le> k" by auto
  have w1: "wf_nodes s1" by (rule alloc_wf [OF 1 "8.prems"(2)])
  from "8.IH"(1) [OF 1 "8.prems"(2) h(1)] tree_of_stable(1) [OF _ alloc_list_extends [OF 2 w1]]
  have "tree_of k s2 a1 = Some t" by blast
  moreover from "8.IH"(2) [OF 1 [symmetric] 2 w1 h(2)] have "trees_of k s2 as2 = Some ts" .
  ultimately show ?case by (simp add: eq)
qed

lemma reach_above:
  assumes "fresh_closed m s" and "m \<le> a"
  shows "reach s a \<subseteq> {b. m \<le> b}"
proof
  fix b assume "b \<in> reach s a"
  then have "m \<le> b"
  proof induction
    case root
    from assms(2) show ?case .
  next
    case (child b n c)
    with assms(1) show ?case unfolding fresh_closed_def by blast
  qed
  then show "b \<in> {b. m \<le> b}" by simp
qed

lemma reach_below:
  assumes "wf_nodes s" and "\<forall>b < next_addr s. nodes s' b = nodes s b" and "a < next_addr s"
  shows "reach s' a \<subseteq> {b. b < next_addr s}"
proof
  fix b assume "b \<in> reach s' a"
  then have "b < next_addr s"
  proof induction
    case root
    from assms(3) show ?case .
  next
    case (child b n c)
    with assms(2) have "nodes s b = Some n" by simp
    with assms(1) child show ?case unfolding wf_nodes_def by blast
  qed
  then show "b \<in> {b. b < next_addr s}" by simp
qed

lemma reach_nodes_sub:
  assumes "nodes s = nodes s'" and "b \<in> reach s a"
  shows "b \<in> reach s' a"
  using assms(2)
proof induction
  case root
  show ?case by (rule reach.root)
next
  case (child b n c)
  with assms(1) show ?case by (auto intro: reach.child)
qed

lemma reach_nodes_cong:
  assumes "nodes s = nodes s'"
  shows "reach s a = reach s' a"
  using reach_nodes_sub [OF assms] reach_nodes_sub [OF assms [symmetric]] by blast

lemma stage_frame:
  assumes wf: "wf_store s"
    and self: "axiom_objects s self = Some a"
    and t: "tree_of limit s (sentence_ref a) = Some t"
    and loc: "local_helper util"
    and ok: "util (snd (alloc t s)) (fst (alloc t s)) = Inr (r, s2)"
    and logical: "nodes s2 r \<noteq> None"
  shows "\<exists>new s'. stage util limit self s = Inr (new, s')
    \<and> axiom_objects s new = None \<and> new \<noteq> self
    \<and> axiom_objects s' new = Some \<lparr>sentence_ref = r, object_id = class_axiom_id s\<rparr>
    \<and> object_id a < class_axiom_id s
    \<and> class_axiom_id s' = class_axiom_id s + 1
    \<and> tree_of limit (snd (alloc t s)) (fst (alloc t s)) = Some t
    \<and> fst (alloc t s) \<notin> reach s (sentence_ref a)
    \<and> axiom_objects s' self = Some a
    \<and> (\<forall>b \<in> reach s (sentence_ref a). nodes s' b = nodes s b)
    \<and> tree_of limit s' (sentence_ref a) = Some t
    \<and> reach s' r \<inter> reach s' (sentence_ref a) = {}"
proof -
  obtain c s1 where al: "alloc t s = (c, s1)" by (cases "alloc t s") auto
  let ?n0 = "next_addr s"
  from wf have wn: "wf_nodes s" by (simp add: wf_store_def)
  from wf self have old: "self < ?n0" "sentence_ref a < ?n0" "object_id a < class_axiom_id s"
    by (auto simp: wf_store_def)
  note fr = alloc_frame(1) [OF al]
  have w1: "wf_nodes s1" by (rule alloc_wf [OF al wn])
  have fc: "fresh_closed ?n0 s1"
  proof (rule alloc_closed(1) [OF al])
    show "fresh_closed ?n0 s" using wn unfolding fresh_closed_def wf_nodes_def
      by (meson not_less)
  qed simp
  have rc: "reach s1 c \<subseteq> {b. ?n0 \<le> b}" using fr by (intro reach_above [OF fc]) simp
  from ok al have u: "util s1 c = Inr (r, s2)" by simp
  from loc w1 u have l: "next_addr s1 \<le> next_addr s2"
    "\<forall>b. b < next_addr s1 \<and> b \<notin> reach s1 c \<longrightarrow> nodes s2 b = nodes s1 b"
    "axiom_objects s2 = axiom_objects s1" "class_axiom_id s2 = class_axiom_id s1"
    "reach s2 r \<subseteq> reach s1 c \<union> {b. next_addr s1 \<le> b}"
    unfolding local_helper_def by blast+
  have agree: "\<forall>b < ?n0. nodes s2 b = nodes s b"
  proof (intro allI impI)
    fix b assume b: "b < ?n0"
    with rc have "b \<notin> reach s1 c" by auto
    with b fr l(2) have "nodes s2 b = nodes s1 b" by simp
    with b fr show "nodes s2 b = nodes s b" by simp
  qed
  define s' where "s' = s2\<lparr>axiom_objects := (axiom_objects s2)(next_addr s2 \<mapsto>
      \<lparr>sentence_ref = r, object_id = class_axiom_id s2\<rparr>),
      next_addr := Suc (next_addr s2), class_axiom_id := class_axiom_id s2 + 1\<rparr>"
  have na: "new_Axiom r s2 = Inr (next_addr s2, s')"
    using logical by (simp add: new_Axiom_def s'_def)
  have st: "stage util limit self s = Inr (next_addr s2, s')"
    using self t al u na by (simp add: stage_def deepcopy_def)
  have n': "nodes s' = nodes s2" by (simp add: s'_def)
  have ge: "?n0 \<le> next_addr s2" using fr l(1) by simp
  have fresh: "axiom_objects s (next_addr s2) = None"
  proof (cases "axiom_objects s (next_addr s2)")
    case (Some x)
    with wf have "next_addr s2 < ?n0" by (auto simp: wf_store_def)
    with ge show ?thesis by simp
  qed simp
  have ne: "next_addr s2 \<noteq> self" using old(1) ge by simp
  have ax: "axiom_objects s2 = axiom_objects s" using l(3) fr by simp
  have cid: "class_axiom_id s2 = class_axiom_id s" using l(4) fr by simp
  have copy: "tree_of limit s1 c = Some t"
    by (rule alloc_tree_of(1) [OF al wn tree_of_height(1) [OF t]])
  have cfresh: "c \<notin> reach s (sentence_ref a)"
    using reach_below [OF wn _ old(2), of s] fr by auto
  have ext: "extends s s'"
    using agree wn unfolding extends_def wf_nodes_def n' by (metis)
  have unchanged: "\<forall>b \<in> reach s (sentence_ref a). nodes s' b = nodes s b"
    using reach_below [OF wn _ old(2), of s] agree n' by auto
  have below: "reach s' (sentence_ref a) \<subseteq> {b. b < ?n0}"
    using agree by (intro reach_below [OF wn _ old(2)]) (simp add: n')
  have "reach s' r = reach s2 r" by (rule reach_nodes_cong [OF n'])
  with l(5) rc fr have above: "reach s' r \<subseteq> {b. ?n0 \<le> b}" by auto
  have disj: "reach s' r \<inter> reach s' (sentence_ref a) = {}"
  proof (rule ccontr)
    assume "reach s' r \<inter> reach s' (sentence_ref a) \<noteq> {}"
    then obtain x where "x \<in> reach s' r" and "x \<in> reach s' (sentence_ref a)" by blast
    with above below have "?n0 \<le> x" and "x < ?n0" by auto
    then show False by simp
  qed
  show ?thesis
    using st fresh ne old(3) copy cfresh unchanged disj tree_of_stable(1) [OF t ext] al ne
    by (intro exI [of _ "next_addr s2"] exI [of _ s']) (simp add: s'_def ax cid self)
qed

lemma alloc_root:
  assumes "alloc t s = (a, s')"
  shows "nodes s' a \<noteq> None"
  using assms by (cases t) (auto simp: new_node_def split: prod.splits)

lemma lift_helper_local: "local_helper (lift_helper limit f)"
  unfolding local_helper_def
proof (intro allI impI)
  fix s a r s'
  assume h: "wf_nodes s \<and> lift_helper limit f s a = Inr (r, s')"
  then obtain t where al: "alloc (f t) s = (r, s')"
    by (auto simp: lift_helper_def split: option.splits)
  from h have wn: "wf_nodes s" by simp
  note fr = alloc_frame(1) [OF al]
  have "fresh_closed (next_addr s) s'"
  proof (rule alloc_closed(1) [OF al])
    show "fresh_closed (next_addr s) s"
      using wn unfolding fresh_closed_def wf_nodes_def by (meson not_less)
  qed simp
  from reach_above [OF this, of r] fr
  have "reach s' r \<subseteq> reach s a \<union> {b. next_addr s \<le> b}" by auto
  with fr show "next_addr s \<le> next_addr s'
    \<and> (\<forall>b. b < next_addr s \<and> b \<notin> reach s a \<longrightarrow> nodes s' b = nodes s b)
    \<and> axiom_objects s' = axiom_objects s
    \<and> class_axiom_id s' = class_axiom_id s
    \<and> reach s' r \<subseteq> reach s a \<union> {b. next_addr s \<le> b}" by simp
qed

lemma wf_example_store: "wf_store example_store"
  by (auto simp: wf_store_def wf_nodes_def example_store_def split: if_splits)

lemma tree_of_example_store:
  "tree_of 4 example_store 2 = Some (Negation (Negation (Predicate ''P'' [Var ''x''])))"
  by (simp add: example_store_def eval_nat_numeral)

lemma stage_lifted:
  assumes wf: "wf_store s"
    and self: "axiom_objects s self = Some a"
    and t: "tree_of limit s (sentence_ref a) = Some t"
    and h: "height (f t) \<le> limit"
  shows "\<exists>new s' r. stage (lift_helper limit f) limit self s = Inr (new, s')
    \<and> axiom_objects s' new = Some \<lparr>sentence_ref = r, object_id = class_axiom_id s\<rparr>
    \<and> tree_of limit s' r = Some (f t)"
proof -
  obtain c s1 where al: "alloc t s = (c, s1)" by (cases "alloc t s") auto
  obtain r s2 where al2: "alloc (f t) s1 = (r, s2)" by (cases "alloc (f t) s1") auto
  from wf have wn: "wf_nodes s" by (simp add: wf_store_def)
  have w1: "wf_nodes s1" by (rule alloc_wf [OF al wn])
  have copy: "tree_of limit s1 c = Some t"
    by (rule alloc_tree_of(1) [OF al wn tree_of_height(1) [OF t]])
  then have ok: "lift_helper limit f (snd (alloc t s)) (fst (alloc t s)) = Inr (r, s2)"
    by (simp add: lift_helper_def al al2)
  have res: "tree_of limit s2 r = Some (f t)" by (rule alloc_tree_of(1) [OF al2 w1 h])
  from stage_frame [OF wf self t lift_helper_local ok alloc_root [OF al2]]
  obtain new s' where st: "stage (lift_helper limit f) limit self s = Inr (new, s')"
    "axiom_objects s' new = Some \<lparr>sentence_ref = r, object_id = class_axiom_id s\<rparr>" by blast
  from st(1) self t al ok have "new_Axiom r s2 = Inr (new, s')"
    by (simp add: stage_def deepcopy_def)
  then have "nodes s' = nodes s2" by (auto simp: new_Axiom_def split: if_splits)
  then have "extends s2 s'" by (simp add: extends_def)
  from tree_of_stable(1) [OF res this] st show ?thesis by blast
qed

subsection \<open>The serializers\<close>

text \<open>
  C5, as amended. For every axiom with id \<open>N\<close> whose equality predicates have two
  arguments, \<^verbatim>\<open>to_tptp\<close> returns \<^verbatim>\<open>fof(axiom<N*10>, axiom, <body>).\<close>, where the body
  is \<^const>\<open>fof_body\<close> of the sentence: variables in upper case, predicate and function
  names in lower case, equality infix, a negated predicate as \<^verbatim>\<open>~(...)\<close>, conjunction
  and disjunction as parenthesized lists joined by \<^verbatim>\<open>&\<close> and \<^verbatim>\<open>|\<close>, and a quantifier
  as \<^verbatim>\<open>(! [V1] : ... ! [Vn] :  (body))\<close>, one bracket per bound variable (\<^verbatim>\<open>?\<close> for the
  existential quantifier).
\<close>

theorem to_tptp_format:
  assumes "binary_equalities (sentence a)"
  shows "to_tptp a =
    Inr (''fof(axiom'' @ str_int (ax_id a * 10) @ '', axiom, '' @ fof_body (sentence a) @ '').'')"
  using assms by (simp add: to_tptp_def tptp_logical_fof_body)

theorem to_tptp_format_witness:
  "binary_equalities
     (Existential [''x'']
        (Conjunction [Negation (Predicate ''Q'' [Var ''x'', Function ''F'' [Var ''c'']]),
                      Predicate ''='' [Var ''x'', Var ''c'']]))
   \<and> to_tptp \<lparr>sentence = Existential [''x'']
        (Conjunction [Negation (Predicate ''Q'' [Var ''x'', Function ''F'' [Var ''c'']]),
                      Predicate ''='' [Var ''x'', Var ''c'']]), ax_id = 7\<rparr>
     = Inr ''fof(axiom70, axiom, (? [X] :  ((~(q(X,f(C))) & X=C)))).''"
  using to_tptp_format [of "\<lparr>sentence = Existential [''x'']
        (Conjunction [Negation (Predicate ''Q'' [Var ''x'', Function ''F'' [Var ''c'']]),
                      Predicate ''='' [Var ''x'', Var ''c'']]), ax_id = 7\<rparr>"]
  by (simp add: is_equality_def str_int_def str_case_defs)

text \<open>
  C5 as stated fails: a universal quantifier over \<open>x\<close> and \<open>y\<close> is not rendered as
  \<^verbatim>\<open>! [X,Y] : (body)\<close>; each variable gets a bracket of its own.
\<close>

theorem to_tptp_quantifier_counterexample:
  "to_tptp \<lparr>sentence = Universal [''x'', ''y''] (Predicate ''P'' [Var ''x'', Var ''y'']),
            ax_id = 1\<rparr>
     = Inr ''fof(axiom10, axiom, (! [X] : ! [Y] :  (p(X,Y)))).''
   \<and> \<not> sublist ''! [X,Y] : (p(X,Y))'' ''fof(axiom10, axiom, (! [X] : ! [Y] :  (p(X,Y)))).''"
  by (simp add: to_tptp_def tptp_prefix_def is_equality_def str_int_def str_case_defs
        sublist_code del: sublist_code(1,2))

text \<open>
  C6. Both serializers render \<^verbatim>\<open>Negation(Negation(T))\<close> as they render \<open>T\<close>: for every
  term \<open>T\<close> and axiom id, the output for the doubly negated sentence (an error included)
  is the output for \<open>T\<close>.
\<close>

theorem double_negation_rendered_as_inner_term:
  "to_tptp \<lparr>sentence = Negation (Negation t), ax_id = n\<rparr> = to_tptp \<lparr>sentence = t, ax_id = n\<rparr>
   \<and> to_ladr \<lparr>sentence = Negation (Negation t), ax_id = n\<rparr> = to_ladr \<lparr>sentence = t, ax_id = n\<rparr>"
  by (simp add: to_tptp_def to_ladr_def split: sum.splits)

text \<open>
  C10. The equality predicate over \<open>f(g(x))\<close> and \<open>y\<close>: \<^verbatim>\<open>to_ladr\<close> raises a
  \<^verbatim>\<open>TypeError\<close> where the claim promises \<^verbatim>\<open>=(f(g(x)),y)\<close>, since its \<^verbatim>\<open>Function\<close>
  branch joins the arguments without rendering them; \<^verbatim>\<open>to_tptp\<close> renders the same
  node. (Where both arguments render, the form is the prefix one:
  \<open>to_ladr_equality_prefix\<close>.)
\<close>

theorem to_ladr_nested_function_raises:
  "to_ladr \<lparr>sentence = Predicate ''='' [Function ''f'' [Function ''g'' [Var ''x'']], Var ''y''],
            ax_id = 1\<rparr>
     = Inl (TypeError ''sequence item: expected str instance, Function found'')
   \<and> to_tptp \<lparr>sentence = Predicate ''='' [Function ''f'' [Function ''g'' [Var ''x'']], Var ''y''],
              ax_id = 1\<rparr>
     = Inr ''fof(axiom10, axiom, f(g(X))=Y).''"
  by (simp add: to_ladr_def to_tptp_def is_equality_def str_int_def str_case_defs)

subsection \<open>The Vampire classifier\<close>

text \<open>
  C9, as amended. The status is UNKNOWN when no line starts with
  \<^verbatim>\<open>Termination reason:\<close>. Otherwise the last such line is classified by the first
  keyword of the table \<^const>\<open>vampire_keywords\<close> that it contains (\<^verbatim>\<open>Refutation not found\<close>
  gives UNKNOWN and comes before \<^verbatim>\<open>Refutation\<close>, which gives PROOF; then Unsatisfiable,
  CounterSatisfiable, Satisfiable; UNKNOWN when it contains none), and an UNKNOWN so found
  becomes ERROR when some line starts with \<^verbatim>\<open>Parser exception:\<close>.
\<close>

theorem vampire_output_by_first_keyword:
  "vampire_output lines =
     (if \<not> list_ex (prefix ''Termination reason:'') lines then UNKNOWN
      else if first_keyword (last (filter (prefix ''Termination reason:'') lines)) = UNKNOWN
              \<and> list_ex (prefix ''Parser exception:'') lines then ERROR
      else first_keyword (last (filter (prefix ''Termination reason:'') lines)))"
proof (cases "filter (prefix ''Termination reason:'') lines = []")
  case True
  then show ?thesis
    by (auto simp: vampire_output_def list_ex_iff filter_empty_conv)
next
  case False
  then have "list_ex (prefix ''Termination reason:'') lines"
    by (auto simp: list_ex_iff filter_empty_conv)
  moreover have "(filter (prefix ''Parser exception:'') lines \<noteq> [])
      = list_ex (prefix ''Parser exception:'') lines"
    by (auto simp: list_ex_iff filter_empty_conv)
  ultimately show ?thesis using False
    by (simp add: vampire_output_def Let_def last_conv_nth vampire_status_first_keyword)
qed

text \<open>
  C9 as stated fails: a last \<^verbatim>\<open>Termination reason:\<close> line that holds the keyword
  \<^verbatim>\<open>Refutation\<close> inside \<^verbatim>\<open>Refutation not found\<close> is classified UNKNOWN, not PROOF.
\<close>

theorem vampire_refutation_not_found_counterexample:
  "prefix ''Termination reason:'' ''Termination reason: Refutation not found, incomplete strategy''
   \<and> sublist ''Refutation'' ''Termination reason: Refutation not found, incomplete strategy''
   \<and> vampire_output [''Termination reason: Refutation not found, incomplete strategy'']
       = UNKNOWN"
  by (simp add: vampire_output_def vampire_status_def sublist_code del: sublist_code(1,2))

subsection \<open>The parser\<close>

text \<open>
  C8. When the file exists and the buffer read from it is empty, \<^verbatim>\<open>parse_file\<close>
  returns \<^verbatim>\<open>None\<close> (no ontology) and raises nothing, whatever the parser would do and
  whatever the other arguments are.
\<close>

theorem parse_file_empty_input:
  assumes "read_file e (normpath_join e base path) = Some []"
  shows "parse_file e path sub base resolve name = Inr None"
  using assms by (simp add: parse_file_def Let_def)

theorem parse_file_empty_input_witness:
  "parse_file \<lparr>normpath_join = (\<lambda>b p. b @ ''/'' @ p),
                read_file = (\<lambda>p. if p = ''onto/empty.clif'' then Some [] else None),
                yacc_parse = (\<lambda>buff. Inl (TypeError ''Unexpectedly reached EOF'')),
                resolve_imports = Inr\<rparr> ''empty.clif'' ''http://x/'' ''onto'' True None
     = Inr None"
  using parse_file_empty_input [of "\<lparr>normpath_join = (\<lambda>b p. b @ ''/'' @ p),
                read_file = (\<lambda>p. if p = ''onto/empty.clif'' then Some [] else None),
                yacc_parse = (\<lambda>buff. Inl (TypeError ''Unexpectedly reached EOF'')),
                resolve_imports = Inr\<rparr>" "''onto''" "''empty.clif''" "''http://x/''" True None]
  by simp

text \<open>
  C7. For the text \<^verbatim>\<open>(and )\<close> the parser meets the unexpected \<^verbatim>\<open>)\<close> at offset 5, on
  the first line, with \<^verbatim>\<open>(\<close> and \<^verbatim>\<open>and\<close> on its stack. \<^verbatim>\<open>p_error\<close> prints
  \<^verbatim>\<open>Error at line 0!\<close>: the number of newlines before the token, where
  \<^verbatim>\<open>get_line_number\<close> gives the 1-based line 1.
\<close>

theorem p_error_reports_newline_count:
  "p_error (Some \<lparr>tok_type = ''RPAREN'', tok_value = VStr '')'', lexpos = 5\<rparr>)
     [\<lparr>tok_type = ''$end'', tok_value = VObj, lexpos = 0\<rparr>,
      \<lparr>tok_type = ''LPAREN'', tok_value = VStr ''('', lexpos = 0\<rparr>,
      \<lparr>tok_type = ''AND'', tok_value = VStr ''and'', lexpos = 1\<rparr>] ''(and )'' []
   = Inr (''Error at line 0! Unexpected Token: ''
            @ [CHR 0x27, CHR '')'', CHR 0xCC, CHR 0xB2, CHR 0x27] @ '' :: ''
            @ [CHR 0x22, CHR '')'', CHR 0xCC, CHR 0xB2, CHR '' '', CHR 0x22, CHR 0x0A, CHR 0x0A]
            @ ''LPAREN AND'',
          \<lparr>tok_type = ''RPAREN'', tok_value = VStr [CHR '')'', CHR 0xCC, CHR 0xB2], lexpos = 5\<rparr>,
          [])
   \<and> get_line_number ''(and )'' 5 = 1"
  by (simp add: p_error_def error_line_def get_line_number_def count_char_def underbar_def)

subsection \<open>The pipeline\<close>

text \<open>
  C1. For every axiom, every generator and every state of the counters, the sentence that
  \<^verbatim>\<open>ff_pcnf\<close> returns has no function application among its predicate arguments, has
  all its quantifiers in front (the matrix below them is free of quantifiers), and its
  matrix is a conjunction of disjunctions of literals, a single clause or literal counting
  as such.
\<close>

theorem ff_pcnf_closure:
  "function_free (sentence (fst (ff_pcnf gen a st)))
   \<and> quantifier_free (matrix (sentence (fst (ff_pcnf gen a st))))
   \<and> is_cnf (matrix (sentence (fst (ff_pcnf gen a st))))"
proof -
  let ?f = "fst (dfs_functions (sentence a) (function_counter st))"
  let ?s = "fst (dfs_standardize gen [] ?f 0)"
  let ?n = "dfs_negate ?s"
  let ?p = "prenex_tree ?n"
  have ff: "function_free ?p"
    by (simp add: prenex_tree_def simplify_function_free prenex_function_free
          dfs_negate_function_free dfs_standardize_function_free dfs_functions_function_free)
  have nn: "negation_normal ?n" by (rule dfs_negate_normal)
  have m: "matrix ?p = matrix (prenex ?n)"
    by (simp add: prenex_tree_def matrix_simplify)
  have cnf: "is_cnf (matrix (to_onf ?p))"
    using prenex_matrix [OF nn] by (intro to_onf_cnf) (simp_all add: m)
  show ?thesis
    using ff cnf by (simp add: ff_pcnf_sentence to_onf_function_free is_cnf_quantifier_free)
qed

text \<open>
  C2. Whatever the axiom's id and the state of the counters, for a generator that starts
  \<open>z, y, x\<close> the pipeline turns \<open>\<forall>(x,y,z)[A(x) \<or> (B(y) \<and> C(z))]\<close> into exactly
  \<open>\<forall>(z,y,x)[((A(z) \<or> B(y)) \<and> (A(z) \<or> C(x)))]\<close>.
\<close>

theorem ff_pcnf_scenario:
  assumes "map gen [0 ..< 3] = [''z'', ''y'', ''x'']"
  shows "sentence (fst (ff_pcnf gen \<lparr>sentence = Universal [''x'', ''y'', ''z'']
     (Disjunction [Predicate ''A'' [Var ''x''],
                   Conjunction [Predicate ''B'' [Var ''y''], Predicate ''C'' [Var ''z'']]]), ax_id = n\<rparr> st))
    = Universal [''z'', ''y'', ''x'']
        (Conjunction [Disjunction [Predicate ''A'' [Var ''z''], Predicate ''B'' [Var ''y'']],
                      Disjunction [Predicate ''A'' [Var ''z''], Predicate ''C'' [Var ''x'']]])"
proof -
  have "map gen [0 ..< Suc (Suc (Suc 0))] = [''z'', ''y'', ''x'']"
    using assms by (simp add: numeral_3_eq_3)
  then show ?thesis
    by (simp add: ff_pcnf_sentence prenex_tree_def simplify_def rescope_def Let_def
          del: upt_Suc map_append)
qed

theorem ff_pcnf_scenario_witness:
  "map generator [0 ..< 3] = [''z'', ''y'', ''x'']
   \<and> sentence (fst (ff_pcnf generator \<lparr>sentence = Universal [''x'', ''y'', ''z'']
     (Disjunction [Predicate ''A'' [Var ''x''],
                   Conjunction [Predicate ''B'' [Var ''y''], Predicate ''C'' [Var ''z'']]]), ax_id = 1\<rparr>
        \<lparr>axiom_id = 2, function_counter = 1\<rparr>))
    = Universal [''z'', ''y'', ''x'']
        (Conjunction [Disjunction [Predicate ''A'' [Var ''z''], Predicate ''B'' [Var ''y'']],
                      Disjunction [Predicate ''A'' [Var ''z''], Predicate ''C'' [Var ''x'']]])"
  using ff_pcnf_scenario [OF generator_first, of 1 "\<lparr>axiom_id = 2, function_counter = 1\<rparr>"]
    generator_first
  by blast

text \<open>
  C4. For a generator that never repeats a name, the variable lists of the quantifiers of
  \<^verbatim>\<open>standardize_variables(A)\<close>, read depth first, are the generator's first names in
  their order, so they are pairwise disjoint and each of them is free of repetitions; the
  same holds after standardizing the result again.
\<close>

theorem standardize_variables_distinct:
  assumes "inj gen"
  shows "distinct (concat (variable_lists (sentence (fst (standardize_variables gen a st)))))
    \<and> concat (variable_lists (sentence (fst (standardize_variables gen a st))))
        = map gen [0 ..< length (concat (variable_lists (sentence (fst (standardize_variables gen a st)))))]
    \<and> distinct (concat (variable_lists (sentence (fst
        (standardize_variables gen (fst (standardize_variables gen a st)) st')))))"
proof -
  obtain n where n: "concat (variable_lists (sentence (fst (standardize_variables gen a st))))
      = map gen [0 ..< n]"
    using standardize_variables_names by blast
  obtain m where m: "concat (variable_lists (sentence (fst
        (standardize_variables gen (fst (standardize_variables gen a st)) st')))) = map gen [0 ..< m]"
    using standardize_variables_names by blast
  show ?thesis
    unfolding n m using distinct_drawn [OF assms] by simp
qed

theorem standardize_variables_distinct_witness:
  "inj generator
   \<and> concat (variable_lists (sentence (fst (standardize_variables generator
       \<lparr>sentence = Universal [''x'', ''y''] (Conjunction [Predicate ''B'' [Var ''y'', Var ''x''],
          Existential [''x''] (Predicate ''A'' [Var ''x''])]), ax_id = 1\<rparr>
       \<lparr>axiom_id = 2, function_counter = 1\<rparr>)))) = [''z'', ''y'', ''x'']
   \<and> distinct (concat (variable_lists (sentence (fst (standardize_variables generator
       \<lparr>sentence = Universal [''x'', ''y''] (Conjunction [Predicate ''B'' [Var ''y'', Var ''x''],
          Existential [''x''] (Predicate ''A'' [Var ''x''])]), ax_id = 1\<rparr>
       \<lparr>axiom_id = 2, function_counter = 1\<rparr>)))))"
proof -
  let ?a = "\<lparr>sentence = Universal [''x'', ''y''] (Conjunction [Predicate ''B'' [Var ''y'', Var ''x''],
          Existential [''x''] (Predicate ''A'' [Var ''x''])]), ax_id = 1\<rparr>"
  let ?st = "\<lparr>axiom_id = 2, function_counter = 1\<rparr>"
  have "length (concat (variable_lists (sentence (fst (standardize_variables generator ?a ?st))))) = 3"
    by (simp add: sentence_standardize_variables)
  with standardize_variables_distinct [OF inj_generator, of ?a ?st ?st] inj_generator
  show ?thesis by (simp add: generator_first)
qed

subsection \<open>The stages as operations on objects\<close>

text \<open>
  C3. In a well-formed store, a stage called on the axiom object \<open>self\<close>, whose sentence
  is a tree within the recursion limit, with work on the copy that is local and returns a
  logical node \<open>r\<close>, returns a new \<^verbatim>\<open>Axiom\<close> object: its address holds no axiom before
  the call and is not \<open>self\<close>; its id is the value of the class counter, which is greater
  than the id of \<open>self\<close>, and the counter is incremented; the work was given a deep copy,
  an address outside the sentence of \<open>self\<close> that denotes the same tree; \<open>self\<close> and the
  nodes of its sentence are unchanged, so its sentence denotes the same tree as before;
  and no node of the result's sentence is a node of the sentence of \<open>self\<close>.
\<close>

theorem stage_returns_fresh_axiom:
  assumes wf: "wf_store s"
    and self: "axiom_objects s self = Some a"
    and t: "tree_of limit s (sentence_ref a) = Some t"
    and loc: "local_helper util"
    and ok: "util (snd (alloc t s)) (fst (alloc t s)) = Inr (r, s2)"
    and logical: "nodes s2 r \<noteq> None"
  shows "\<exists>new s'. stage util limit self s = Inr (new, s')
    \<and> axiom_objects s new = None \<and> new \<noteq> self
    \<and> axiom_objects s' new = Some \<lparr>sentence_ref = r, object_id = class_axiom_id s\<rparr>
    \<and> object_id a < class_axiom_id s
    \<and> class_axiom_id s' = class_axiom_id s + 1
    \<and> tree_of limit (snd (alloc t s)) (fst (alloc t s)) = Some t
    \<and> fst (alloc t s) \<notin> reach s (sentence_ref a)
    \<and> axiom_objects s' self = Some a
    \<and> (\<forall>b \<in> reach s (sentence_ref a). nodes s' b = nodes s b)
    \<and> tree_of limit s' (sentence_ref a) = Some t
    \<and> reach s' r \<inter> reach s' (sentence_ref a) = {}"
  using assms by (rule stage_frame)

theorem stage_returns_fresh_axiom_witness:
  "wf_store example_store
   \<and> axiom_objects example_store 3 = Some \<lparr>sentence_ref = 2, object_id = 1\<rparr>
   \<and> tree_of 4 example_store 2 = Some (Negation (Negation (Predicate ''P'' [Var ''x''])))
   \<and> local_helper (lift_helper 4 dfs_negate)
   \<and> (\<exists>r s2 new s'.
        lift_helper 4 dfs_negate
          (snd (alloc (Negation (Negation (Predicate ''P'' [Var ''x'']))) example_store))
          (fst (alloc (Negation (Negation (Predicate ''P'' [Var ''x'']))) example_store))
          = Inr (r, s2)
        \<and> nodes s2 r \<noteq> None
        \<and> stage (lift_helper 4 dfs_negate) 4 3 example_store = Inr (new, s')
        \<and> axiom_objects s' new = Some \<lparr>sentence_ref = r, object_id = 2\<rparr>
        \<and> (1::int) < 2
        \<and> reach s' r \<inter> reach s' 2 = {})"
proof -
  let ?t = "Negation (Negation (Predicate ''P'' [Var ''x'']))"
  let ?s1 = "snd (alloc ?t example_store)" and ?c = "fst (alloc ?t example_store)"
  have self: "axiom_objects example_store 3 = Some \<lparr>sentence_ref = 2, object_id = 1\<rparr>"
    by (simp add: example_store_def)
  have wn: "wf_nodes example_store" using wf_example_store by (simp add: wf_store_def)
  have "tree_of 4 ?s1 ?c = Some ?t"
    by (rule alloc_tree_of(1) [OF _ wn]) (simp_all add: eval_nat_numeral)
  then have u: "lift_helper 4 dfs_negate ?s1 ?c = Inr (alloc (Predicate ''P'' [Var ''x'']) ?s1)"
    by (simp add: lift_helper_def)
  obtain r s2 where al: "alloc (Predicate ''P'' [Var ''x'']) ?s1 = (r, s2)"
    by (cases "alloc (Predicate ''P'' [Var ''x'']) ?s1") auto
  with u have ok: "lift_helper 4 dfs_negate ?s1 ?c = Inr (r, s2)" by simp
  have logical: "nodes s2 r \<noteq> None" by (rule alloc_root [OF al])
  have cid: "class_axiom_id example_store = 2" by (simp add: example_store_def)
  from stage_returns_fresh_axiom [OF wf_example_store, of 3 "\<lparr>sentence_ref = 2, object_id = 1\<rparr>" 4 ?t
      "lift_helper 4 dfs_negate" r s2, OF self _ lift_helper_local ok logical]
    tree_of_example_store
  obtain new s' where "stage (lift_helper 4 dfs_negate) 4 3 example_store = Inr (new, s')"
    "axiom_objects s' new = Some \<lparr>sentence_ref = r, object_id = 2\<rparr>"
    "reach s' r \<inter> reach s' 2 = {}"
    by (auto simp: cid)
  with wf_example_store self tree_of_example_store lift_helper_local ok logical
  show ?thesis by (intro conjI exI [of _ r] exI [of _ s2] exI [of _ new] exI [of _ s']) simp_all
qed

end
